theory Spec2Isabelle
  imports Complex_Main
begin

section \<open>Vectors and the numpy operations used by the memory engine\<close>

text \<open>
  The engine lives in \<^verbatim>\<open>src/tesumi/app/services/gnn_processor.py\<close>.  A one-dimensional
  array is a list and a two-dimensional array is the list of its rows.  Every place where
  numpy or torch raises is a branch that returns \<open>Inl\<close>.

  Numbers are reals: an arithmetic expression below names the real number of which the
  code computes a floating-point rounding (in single or double precision), for finite
  inputs.  The theorems about computed values therefore say from which expression a value
  is computed and which slot or record it belongs to, and the concrete runs only compare
  values that are far apart.
\<close>

type_synonym vec = "real list"
type_synonym matrix = "vec list"
type_synonym edge_index = "nat list \<times> nat list"

datatype error = ValueError | RuntimeError

definition zeros :: "nat \<Rightarrow> vec" where
  "zeros n = replicate n 0"

definition zeros2 :: "nat \<Rightarrow> nat \<Rightarrow> matrix" where
  "zeros2 r c = replicate r (zeros c)"

definition eps :: real where
  \<comment> \<open>the constant \<^verbatim>\<open>1e-8\<close> added to every norm\<close>
  "eps = 1 / 100000000"

definition dot :: "vec \<Rightarrow> vec \<Rightarrow> real" where
  "dot a b = sum_list (map2 (*) a b)"

definition linalg_norm :: "vec \<Rightarrow> real" where
  \<comment> \<open>\<^verbatim>\<open>np.linalg.norm\<close> of a one-dimensional array: the exact Euclidean norm, which the
      code rounds to the precision of the array\<close>
  "linalg_norm v = sqrt (sum_list (map (\<lambda>x. x * x) v))"

definition np_dot :: "nat \<Rightarrow> matrix \<Rightarrow> vec \<Rightarrow> error + real list" where
  \<comment> \<open>\<^verbatim>\<open>np.dot(A, q)\<close> for \<open>A\<close> of shape \<open>(n, cols)\<close> and \<open>q\<close> of shape \<open>(len q,)\<close>:
      numpy raises ValueError (shapes not aligned) unless \<open>cols = len q\<close>\<close>
  "np_dot cols A q = (if length q = cols then Inr (map (\<lambda>r. dot r q) A) else Inl ValueError)"

type_synonym argsort = "real list \<Rightarrow> nat list"

definition argsort_spec :: "argsort \<Rightarrow> bool" where
  \<comment> \<open>what \<^verbatim>\<open>np.argsort\<close> with its default kind guarantees: the indices of the array, each
      once, in ascending order of their values.  The default sort is not stable, so the
      order of indices with equal values is the platform's; the argsort in use is a
      parameter of every function that calls it\<close>
  "argsort_spec A \<longleftrightarrow>
     (\<forall>xs. length (A xs) = length xs \<and> set (A xs) = {0..<length xs} \<and>
           sorted (map (\<lambda>i. xs ! i) (A xs)))"

definition insertion_argsort :: argsort where
  \<comment> \<open>one argsort that meets \<open>argsort_spec\<close>, used to run the code on examples in which no
      two values that are sorted are equal\<close>
  "insertion_argsort xs = sort_key (\<lambda>i. xs ! i) [0..<length xs]"

fun argmin_loop :: "nat \<Rightarrow> real \<Rightarrow> nat \<Rightarrow> real list \<Rightarrow> nat" where
  "argmin_loop best bv i [] = best"
| "argmin_loop best bv i (x # xs) =
     (if x < bv then argmin_loop i x (Suc i) xs else argmin_loop best bv (Suc i) xs)"

definition np_argmin :: "real list \<Rightarrow> error + nat" where
  \<comment> \<open>\<^verbatim>\<open>np.argmin\<close>: the first index of the minimum; ValueError on an empty array\<close>
  "np_argmin xs = (case xs of [] \<Rightarrow> Inl ValueError | x # rest \<Rightarrow> Inr (argmin_loop 0 x 1 rest))"

definition py_take :: "int \<Rightarrow> 'a list \<Rightarrow> 'a list" where
  \<comment> \<open>the Python slice \<^verbatim>\<open>xs[:k]\<close>; a negative \<open>k\<close> counts from the end\<close>
  "py_take k xs = (if 0 \<le> k then take (nat k) xs else take (nat (int (length xs) + k)) xs)"

definition broadcast_row :: "nat \<Rightarrow> vec \<Rightarrow> error + vec" where
  \<comment> \<open>the value stored by \<^verbatim>\<open>A[idx] = v\<close> into a row of length \<open>d\<close>: \<open>v\<close> itself when it
      has length \<open>d\<close>, a one-element \<open>v\<close> repeated \<open>d\<close> times, ValueError (could not broadcast)
      otherwise\<close>
  "broadcast_row d v =
     (if length v = d then Inr v
      else if length v = 1 then Inr (replicate d (hd v))
      else Inl ValueError)"


section \<open>Settings\<close>

record Settings =
  VECTOR_DIMENSION :: nat
  MAX_MEMORY_NODES :: nat
  MEMORY_DECAY_FACTOR :: real
  GNN_HIDDEN_DIM :: nat
  GNN_NUM_LAYERS :: nat
  GNN_DROPOUT :: real

definition default_settings :: Settings where
  "default_settings =
     \<lparr>VECTOR_DIMENSION = 384, MAX_MEMORY_NODES = 10000, MEMORY_DECAY_FACTOR = 95 / 100,
      GNN_HIDDEN_DIM = 128, GNN_NUM_LAYERS = 3, GNN_DROPOUT = 1 / 10\<rparr>"


section \<open>ExternalMemory\<close>

record ExternalMemory =
  memory_size :: nat
  key_dim :: nat
  keys :: matrix
  vals :: matrix
  usage :: "real list"
  current_size :: nat

definition ExternalMemory_init :: "nat \<Rightarrow> nat \<Rightarrow> ExternalMemory" where
  "ExternalMemory_init msize kdim =
     \<lparr>memory_size = msize, key_dim = kdim, keys = zeros2 msize kdim,
      vals = zeros2 msize kdim, usage = zeros msize, current_size = 0\<rparr>"

definition store_slot :: "nat \<Rightarrow> vec \<Rightarrow> vec \<Rightarrow> ExternalMemory \<Rightarrow> (error + nat) \<times> ExternalMemory" where
  \<comment> \<open>the three assignments \<^verbatim>\<open>keys[idx] = key; values[idx] = value; usage[idx] = 1.0\<close>,
      each of the first two raising when the array does not fit the row\<close>
  "store_slot idx key value m =
     (case broadcast_row (key_dim m) key of
        Inl e \<Rightarrow> (Inl e, m)
      | Inr k \<Rightarrow>
          let m1 = m\<lparr>keys := (keys m)[idx := k]\<rparr> in
          (case broadcast_row (key_dim m) value of
             Inl e \<Rightarrow> (Inl e, m1)
           | Inr v \<Rightarrow> (Inr idx, m1\<lparr>vals := (vals m1)[idx := v], usage := (usage m1)[idx := 1]\<rparr>)))"

definition ExternalMemory_write :: "vec \<Rightarrow> vec \<Rightarrow> ExternalMemory \<Rightarrow> (error + nat) \<times> ExternalMemory" where
  "ExternalMemory_write key value m =
     (if current_size m < memory_size m then
        store_slot (current_size m) key value (m\<lparr>current_size := current_size m + 1\<rparr>)
      else
        (case np_argmin (usage m) of
           Inl e \<Rightarrow> (Inl e, m)
         | Inr idx \<Rightarrow> store_slot idx key value m))"

definition ExternalMemory_read ::
  "argsort \<Rightarrow> vec \<Rightarrow> int \<Rightarrow> ExternalMemory \<Rightarrow> (error + matrix \<times> real list) \<times> ExternalMemory" where
  "ExternalMemory_read np_argsort query k m =
     (if current_size m = 0 then
        (if k < 0 then (Inl ValueError, m)
         else (Inr (zeros2 (nat k) (key_dim m), zeros (nat k)), m))
      else
        (case np_dot (key_dim m) (take (current_size m) (keys m)) query of
           Inl e \<Rightarrow> (Inl e, m)
         | Inr d \<Rightarrow>
             let s1 = map2 (\<lambda>s r. s / (linalg_norm r + eps)) d (take (current_size m) (keys m));
                 similarities = map (\<lambda>s. s / (linalg_norm query + eps)) s1;
                 top_k_indices = py_take k (rev (np_argsort similarities));
                 usage' = map (\<lambda>i. if i \<in> set top_k_indices then usage m ! i + 1 / 10 else usage m ! i)
                            [0..<length (usage m)]
             in (Inr (map (\<lambda>i. vals m ! i) top_k_indices, map (\<lambda>i. similarities ! i) top_k_indices),
                 m\<lparr>usage := usage'\<rparr>)))"

definition store_inv :: "ExternalMemory \<Rightarrow> bool" where
  \<comment> \<open>the shape of the three arrays allocated by \<^verbatim>\<open>__init__\<close>, and the slots that
      have never been handed out still hold the zeros they were allocated with\<close>
  "store_inv m \<longleftrightarrow>
     length (keys m) = memory_size m \<and> length (vals m) = memory_size m \<and>
     length (usage m) = memory_size m \<and> current_size m \<le> memory_size m \<and>
     (\<forall>r\<in>set (keys m). length r = key_dim m) \<and> (\<forall>r\<in>set (vals m). length r = key_dim m) \<and>
     (\<forall>i\<in>{current_size m..<memory_size m}.
        keys m ! i = zeros (key_dim m) \<and> vals m ! i = zeros (key_dim m) \<and> usage m ! i = 0)"

definition full_store :: ExternalMemory where
  \<comment> \<open>a store of capacity 3 with every slot occupied; slots 1 and 2 share the least usage\<close>
  "full_store =
     \<lparr>memory_size = 3, key_dim = 2, keys = [[1, 0], [0, 1], [1, 1]],
      vals = [[5, 5], [6, 6], [7, 7]], usage = [1 / 2, 1 / 5, 1 / 5], current_size = 3\<rparr>"


section \<open>The network and the processor state\<close>

text \<open>
  The layers of \<^verbatim>\<open>GraphSAGEMemory\<close> come from torch and torch_geometric; their learned
  weights are parameters of the model.  Each learned map gives the entry of an output row
  at a column index, so that the shape of every layer's output is the one its constructor
  declares.
\<close>

record GraphSAGEMemory =
  input_dim :: nat
  hidden_dim :: nat
  num_layers :: nat
  conv_weights :: "nat \<Rightarrow> matrix \<Rightarrow> edge_index \<Rightarrow> nat \<Rightarrow> nat \<Rightarrow> real"
  gru_weights :: "vec \<Rightarrow> vec \<Rightarrow> nat \<Rightarrow> real"
  attention_weights :: "vec \<Rightarrow> nat \<Rightarrow> real"
  activation_weights :: "vec \<Rightarrow> nat \<Rightarrow> real"
  emotion_weights :: "vec \<Rightarrow> nat \<Rightarrow> real"

record GNNProcessor =
  settings :: Settings
  model :: GraphSAGEMemory
  external_memory :: ExternalMemory
  node_memory_states :: "string \<rightharpoonup> vec"
  randn_source :: "nat \<Rightarrow> real"
  randn_drawn :: nat

definition GNNProcessor_init ::
  "Settings \<Rightarrow> GraphSAGEMemory \<Rightarrow> (nat \<Rightarrow> real) \<Rightarrow> GNNProcessor" where
  \<comment> \<open>\<^verbatim>\<open>GNNProcessor.__init__\<close>: the dimensions come from the settings, the weights and the
      stream of normal variates that \<^verbatim>\<open>torch.randn\<close> will deliver are given.  The torch
      constructor of the four-head attention also demands a hidden dimension divisible by
      four; the default and the example settings have one\<close>
  "GNNProcessor_init cfg weights rng =
     \<lparr>settings = cfg,
      model = weights\<lparr>input_dim := VECTOR_DIMENSION cfg, hidden_dim := GNN_HIDDEN_DIM cfg,
                      num_layers := GNN_NUM_LAYERS cfg\<rparr>,
      external_memory = ExternalMemory_init (MAX_MEMORY_NODES cfg) (GNN_HIDDEN_DIM cfg),
      node_memory_states = Map.empty,
      randn_source = rng,
      randn_drawn = 0\<rparr>"

definition apply_memory_decay :: "GNNProcessor \<Rightarrow> GNNProcessor" where
  "apply_memory_decay P =
     (let m = external_memory P;
          decayed = map (\<lambda>u. u * MEMORY_DECAY_FACTOR (settings P)) (usage m);
          threshold = 1 / 100;
          low_usage_indices = filter (\<lambda>i. decayed ! i < threshold) [0..<length decayed];
          usage' = foldl (\<lambda>u idx. u[idx := 0]) decayed
                     (take (length low_usage_indices div 2) low_usage_indices)
      in P\<lparr>external_memory := m\<lparr>usage := usage'\<rparr>\<rparr>)"

definition update_memory_with_interaction ::
  "string \<Rightarrow> string \<Rightarrow> vec \<Rightarrow> (string \<rightharpoonup> real) \<Rightarrow> GNNProcessor \<Rightarrow> GNNProcessor" where
  "update_memory_with_interaction user_input system_response embedding emotion_scores P =
     (case ExternalMemory_write embedding embedding (external_memory P) of
        (Inl e, m') \<Rightarrow> P\<lparr>external_memory := m'\<rparr>
      | (Inr idx, m') \<Rightarrow> apply_memory_decay (P\<lparr>external_memory := m'\<rparr>))"


section \<open>The torch layers\<close>

definition relu :: "real \<Rightarrow> real" where
  "relu v = max 0 v"

definition sigmoid :: "real \<Rightarrow> real" where
  \<comment> \<open>the logistic function, of which \<^verbatim>\<open>torch.sigmoid\<close> returns the single-precision
      rounding (exactly 0.0 or 1.0 for large arguments)\<close>
  "sigmoid v = 1 / (1 + exp (- v))"

definition size_last :: "matrix \<Rightarrow> nat" where
  \<comment> \<open>\<^verbatim>\<open>x.size(-1)\<close>, the number of columns, read off the first row\<close>
  "size_last X = (case X of [] \<Rightarrow> 0 | r # _ \<Rightarrow> length r)"

definition matrix_add :: "matrix \<Rightarrow> matrix \<Rightarrow> matrix" where
  "matrix_add X Y = map2 (map2 (+)) X Y"

definition SAGEConv ::
  "nat \<Rightarrow> nat \<Rightarrow> (matrix \<Rightarrow> edge_index \<Rightarrow> nat \<Rightarrow> nat \<Rightarrow> real) \<Rightarrow> matrix \<Rightarrow> edge_index \<Rightarrow> error + matrix" where
  \<comment> \<open>a \<^verbatim>\<open>SAGEConv(in_ch, out_ch)\<close> layer: one output row of \<open>out_ch\<close> entries per node;
      its linear maps raise on rows that do not have \<open>in_ch\<close> entries\<close>
  "SAGEConv in_ch out_ch w X ei =
     (if \<forall>r\<in>set X. length r = in_ch
      then Inr (map (\<lambda>i. map (w X ei i) [0..<out_ch]) [0..<length X])
      else Inl RuntimeError)"

definition GRUCell ::
  "nat \<Rightarrow> nat \<Rightarrow> (vec \<Rightarrow> vec \<Rightarrow> nat \<Rightarrow> real) \<Rightarrow> matrix \<Rightarrow> matrix \<Rightarrow> error + matrix" where
  \<comment> \<open>\<^verbatim>\<open>nn.GRUCell(in_dim, hid)\<close> on a batch: row \<open>i\<close> of the result depends on row \<open>i\<close>
      of the input and of the hidden state\<close>
  "GRUCell in_dim hid w X H =
     (if length X = length H \<and> (\<forall>r\<in>set X. length r = in_dim) \<and> (\<forall>r\<in>set H. length r = hid)
      then Inr (map2 (\<lambda>xr hr. map (w xr hr) [0..<hid]) X H)
      else Inl RuntimeError)"

definition MultiheadAttention :: "nat \<Rightarrow> (vec \<Rightarrow> nat \<Rightarrow> real) \<Rightarrow> matrix \<Rightarrow> error + matrix" where
  \<comment> \<open>\<^verbatim>\<open>nn.MultiheadAttention(embed_dim, 4)\<close> applied to the states reshaped to
      \<open>(1, batch, hidden)\<close>: the sequence has length one, so every node attends to itself
      only and each output row depends on its own input row\<close>
  "MultiheadAttention embed_dim w X =
     (if \<forall>r\<in>set X. length r = embed_dim
      then Inr (map (\<lambda>r. map (w r) [0..<embed_dim]) X)
      else Inl RuntimeError)"

definition Linear :: "nat \<Rightarrow> nat \<Rightarrow> (vec \<Rightarrow> nat \<Rightarrow> real) \<Rightarrow> matrix \<Rightarrow> error + matrix" where
  "Linear in_f out_f w X =
     (if \<forall>r\<in>set X. length r = in_f
      then Inr (map (\<lambda>r. map (w r) [0..<out_f]) X)
      else Inl RuntimeError)"


section \<open>MemoryGRU and GraphSAGEMemory\<close>

definition MemoryGRU_forward :: "GraphSAGEMemory \<Rightarrow> matrix \<Rightarrow> matrix option \<Rightarrow> error + matrix" where
  "MemoryGRU_forward M input_features hidden_state =
     (let h = (case hidden_state of
                 None \<Rightarrow> zeros2 (length input_features) (hidden_dim M)
               | Some hs \<Rightarrow> hs)
      in GRUCell (hidden_dim M) (hidden_dim M) (gru_weights M) input_features h)"

record GNN_output =
  node_embeddings :: matrix
  activation_scores :: matrix
  emotion_predictions :: matrix
  memory_states :: matrix

fun conv_loop :: "GraphSAGEMemory \<Rightarrow> edge_index \<Rightarrow> nat list \<Rightarrow> matrix \<Rightarrow> error + matrix" where
  "conv_loop M ei [] X = Inr X"
| "conv_loop M ei (i # rest) X =
     (case SAGEConv (if i = 0 then input_dim M + 2 else hidden_dim M) (hidden_dim M)
             (conv_weights M i) X ei of
        Inl e \<Rightarrow> Inl e
      | Inr conv_out \<Rightarrow>
          let x_new = map (map relu) conv_out
          in conv_loop M ei rest
               (if 0 < i \<and> size_last X = size_last x_new then matrix_add X x_new else x_new))"

definition GraphSAGEMemory_forward ::
  "GraphSAGEMemory \<Rightarrow> matrix \<times> edge_index \<times> real list \<Rightarrow> matrix option \<Rightarrow> error + GNN_output" where
  \<comment> \<open>evaluation mode, as \<^verbatim>\<open>activate_memories\<close> calls it: dropout is the identity\<close>
  "GraphSAGEMemory_forward M data mem_states =
     (case data of (feat, ei, attr) \<Rightarrow>
      (case conv_loop M ei [0..<1 + (num_layers M - 1)] feat of
         Inl e \<Rightarrow> Inl e
       | Inr embs \<Rightarrow>
      (case MemoryGRU_forward M embs mem_states of
         Inl e \<Rightarrow> Inl e
       | Inr new_memory_states \<Rightarrow>
      (case MultiheadAttention (hidden_dim M) (attention_weights M) new_memory_states of
         Inl e \<Rightarrow> Inl e
       | Inr attended_memory \<Rightarrow>
      (let combined_features = matrix_add embs attended_memory in
      (case Linear (hidden_dim M) 1 (activation_weights M) combined_features of
         Inl e \<Rightarrow> Inl e
       | Inr act \<Rightarrow>
      (case Linear (hidden_dim M) 2 (emotion_weights M) combined_features of
         Inl e \<Rightarrow> Inl e
       | Inr emo \<Rightarrow>
           Inr \<lparr>node_embeddings = combined_features,
                activation_scores = map (map sigmoid) act,
                emotion_predictions = map (map tanh) emo,
                memory_states = new_memory_states\<rparr>)))))))"


section \<open>GNNProcessor\<close>

text \<open>
  A memory node is the dictionary the caller passes: its \<^verbatim>\<open>id\<close> as a string, its
  embedding, and the optional keys \<^verbatim>\<open>valence\<close> and \<^verbatim>\<open>arousal\<close> (\<open>None\<close> for a missing key,
  read with the default 0.0).  An activated memory is the copy of the node with the two
  score keys added.
\<close>

record MemoryNode =
  node_id :: string
  embedding :: vec
  valence :: "real option"
  arousal :: "real option"

record MemoryEdge =
  source_id :: string
  target_id :: string
  weight :: real

record ActivatedMemory =
  memory :: MemoryNode
  activation_score :: real
  similarity_score :: real

definition node_id_to_idx :: "MemoryNode list \<Rightarrow> (string \<rightharpoonup> nat)" where
  "node_id_to_idx nodes =
     foldl (\<lambda>tbl (i, n). tbl(node_id n \<mapsto> i)) Map.empty (zip [0..<length nodes] nodes)"

fun edge_loop :: "(string \<rightharpoonup> nat) \<Rightarrow> MemoryEdge list \<Rightarrow> edge_index \<times> real list \<Rightarrow> edge_index \<times> real list" where
  "edge_loop tbl [] acc = acc"
| "edge_loop tbl (e # rest) ((src, dst), ws) =
     (case (tbl (source_id e), tbl (target_id e)) of
        (Some source_idx, Some target_idx) \<Rightarrow>
          edge_loop tbl rest
            ((src @ [source_idx, target_idx], dst @ [target_idx, source_idx]), ws @ [weight e, weight e])
      | _ \<Rightarrow> edge_loop tbl rest ((src, dst), ws))"

definition create_graph_data ::
  "MemoryNode list \<Rightarrow> MemoryEdge list \<Rightarrow> error + matrix \<times> edge_index \<times> real list" where
  \<comment> \<open>the \<^verbatim>\<open>Data(x, edge_index, edge_attr)\<close> object as a triple; \<^verbatim>\<open>torch.tensor\<close> raises
      ValueError on rows of different lengths\<close>
  "create_graph_data nodes edges =
     (if nodes = [] then Inr ([], ([], []), [])
      else
        let node_features =
              map (\<lambda>n. embedding n @ [case valence n of None \<Rightarrow> 0 | Some v \<Rightarrow> v,
                                       case arousal n of None \<Rightarrow> 0 | Some a \<Rightarrow> a]) nodes;
            tbl = node_id_to_idx nodes
        in if \<forall>r\<in>set node_features. length r = length (hd node_features)
           then (case edge_loop tbl edges (([], []), []) of
                   (ei, attr) \<Rightarrow> Inr (node_features, ei, attr))
           else Inl ValueError)"

definition torch_randn :: "nat \<Rightarrow> GNNProcessor \<Rightarrow> vec \<times> GNNProcessor" where
  \<comment> \<open>\<^verbatim>\<open>torch.randn(n)\<close>: the next \<open>n\<close> variates of the generator\<close>
  "torch_randn n P =
     (map (\<lambda>k. randn_source P (randn_drawn P + k)) [0..<n], P\<lparr>randn_drawn := randn_drawn P + n\<rparr>)"

fun states_loop :: "string list \<Rightarrow> matrix \<Rightarrow> GNNProcessor \<Rightarrow> matrix \<times> GNNProcessor" where
  "states_loop [] states P = (states, P)"
| "states_loop (nid # rest) states P =
     (case node_memory_states P nid of
        Some s \<Rightarrow> states_loop rest (states @ [s]) P
      | None \<Rightarrow>
          (case torch_randn (GNN_HIDDEN_DIM (settings P)) P of
             (state, P1) \<Rightarrow>
               states_loop rest (states @ [state])
                 (P1\<lparr>node_memory_states := (node_memory_states P1)(nid \<mapsto> state)\<rparr>)))"

definition get_memory_states :: "string list \<Rightarrow> GNNProcessor \<Rightarrow> matrix option \<times> GNNProcessor" where
  \<comment> \<open>\<^verbatim>\<open>torch.stack\<close> raises on states of different lengths; the handler returns None\<close>
  "get_memory_states node_ids P =
     (case states_loop node_ids [] P of
        (states, P') \<Rightarrow>
          (if states \<noteq> []
           then (if \<forall>s\<in>set states. length s = length (hd states) then Some states else None)
           else None,
           P'))"

definition update_memory_states :: "string list \<Rightarrow> matrix \<Rightarrow> GNNProcessor \<Rightarrow> GNNProcessor" where
  "update_memory_states node_ids new_states P =
     P\<lparr>node_memory_states :=
         foldl (\<lambda>tbl (nid, s). tbl(nid \<mapsto> s)) (node_memory_states P) (zip node_ids new_states)\<rparr>"

definition rank_entries ::
  "argsort \<Rightarrow> MemoryNode list \<Rightarrow> real list \<Rightarrow> real list \<Rightarrow> int \<Rightarrow> ActivatedMemory list" where
  \<comment> \<open>lines 339 to 347: the top-k indices and the loop that annotates the copies\<close>
  "rank_entries np_argsort nodes final_scores similarities top_k =
     (let top_indices = py_take top_k (rev (np_argsort final_scores))
      in map (\<lambda>idx. \<lparr>memory = nodes ! idx, activation_score = final_scores ! idx,
                      similarity_score = similarities ! idx\<rparr>)
           (filter (\<lambda>idx. idx < length nodes) top_indices))"

definition activate_body ::
  "argsort \<Rightarrow> MemoryNode list \<Rightarrow> MemoryEdge list \<Rightarrow> vec \<Rightarrow> int \<Rightarrow> GNNProcessor
     \<Rightarrow> (error + ActivatedMemory list) \<times> GNNProcessor" where
  \<comment> \<open>the body of the \<^verbatim>\<open>try\<close> block of \<^verbatim>\<open>activate_memories\<close>\<close>
  "activate_body np_argsort nodes edges query_embedding top_k P =
     (if nodes = [] then (Inr [], P)
      else
      (case create_graph_data nodes edges of
         Inl e \<Rightarrow> (Inl e, P)
       | Inr graph_data \<Rightarrow>
      (case get_memory_states (map node_id nodes) P of
         (mem_states, P1) \<Rightarrow>
      (case GraphSAGEMemory_forward (model P1) graph_data mem_states of
         Inl e \<Rightarrow> (Inl e, P1)
       | Inr output \<Rightarrow>
      (let P2 = update_memory_states (map node_id nodes) (memory_states output) P1;
           embs = node_embeddings output;
           acts = concat (activation_scores output)
       in
      (case np_dot (hidden_dim (model P2)) embs query_embedding of
         Inl e \<Rightarrow> (Inl e, P2)
       | Inr d \<Rightarrow>
      (let s1 = map2 (\<lambda>s r. s / (linalg_norm r + eps)) d embs;
           similarities = map (\<lambda>s. s / (linalg_norm query_embedding + eps)) s1;
           final_scores = map2 (\<lambda>s a. 7 / 10 * s + 3 / 10 * a) similarities acts;
           activated_memories = rank_entries np_argsort nodes final_scores similarities top_k
       in
      (case ExternalMemory_read np_argsort query_embedding
              (min 3 (int (length activated_memories)))
              (external_memory P2) of
         (Inl e, m') \<Rightarrow> (Inl e, P2\<lparr>external_memory := m'\<rparr>)
       | (Inr ext, m') \<Rightarrow> (Inr activated_memories, P2\<lparr>external_memory := m'\<rparr>)))))))))"

definition activate_memories ::
  "argsort \<Rightarrow> MemoryNode list \<Rightarrow> MemoryEdge list \<Rightarrow> vec \<Rightarrow> int \<Rightarrow> GNNProcessor
     \<Rightarrow> ActivatedMemory list \<times> GNNProcessor" where
  \<comment> \<open>\<^verbatim>\<open>except Exception\<close>: any failure is logged and the empty list returned\<close>
  "activate_memories np_argsort nodes edges query_embedding top_k P =
     (case activate_body np_argsort nodes edges query_embedding top_k P of
        (Inl e, P') \<Rightarrow> ([], P')
      | (Inr activated, P') \<Rightarrow> (activated, P'))"


section \<open>A small processor and some records to run the code on\<close>

text \<open>
  The example configuration has \<open>D = H = 4\<close>, so that a query and an interaction embedding
  of the configured vector dimension also fit the hidden dimension.  The example weights
  are ones the torch layers can hold: the first convolution passes the first \<open>H\<close> input
  features through and the later ones are zero, so that the node embeddings are the
  rectified record embeddings; a GRU cell with zero weights halves its hidden state; the
  attention output projection and both heads are zero.
\<close>

definition example_settings :: Settings where
  "example_settings =
     \<lparr>VECTOR_DIMENSION = 4, MAX_MEMORY_NODES = 3, MEMORY_DECAY_FACTOR = 95 / 100,
      GNN_HIDDEN_DIM = 4, GNN_NUM_LAYERS = 3, GNN_DROPOUT = 1 / 10\<rparr>"

definition example_weights :: GraphSAGEMemory where
  "example_weights =
     \<lparr>input_dim = 4, hidden_dim = 4, num_layers = 3,
      conv_weights = (\<lambda>l X ei i j. if l = 0 then X ! i ! j else 0),
      gru_weights = (\<lambda>xr hr j. hr ! j / 2),
      attention_weights = (\<lambda>r j. 0),
      activation_weights = (\<lambda>r j. 0),
      emotion_weights = (\<lambda>r j. 0)\<rparr>"

definition example_randn :: "nat \<Rightarrow> real" where
  "example_randn k = real k / 2"

definition example_processor :: GNNProcessor where
  "example_processor = GNNProcessor_init example_settings example_weights example_randn"

definition default_processor :: GNNProcessor where
  "default_processor = GNNProcessor_init default_settings example_weights example_randn"

definition node_a :: MemoryNode where
  "node_a = \<lparr>node_id = ''a'', embedding = [1, 0, 0, 0], valence = Some 0, arousal = Some 0\<rparr>"

definition node_b :: MemoryNode where
  "node_b = \<lparr>node_id = ''b'', embedding = [0, 1, 0, 0], valence = Some 0, arousal = None\<rparr>"

definition node_short :: MemoryNode where
  \<comment> \<open>a record whose embedding has three entries instead of four\<close>
  "node_short = \<lparr>node_id = ''s'', embedding = [1, 0, 0], valence = Some 0, arousal = Some 0\<rparr>"

definition default_node :: MemoryNode where
  \<comment> \<open>a candidate as \<^verbatim>\<open>search_memories\<close> builds it under the default settings: its
      embedding has \<open>VECTOR_DIMENSION = 384\<close> entries\<close>
  "default_node =
     \<lparr>node_id = ''n'', embedding = replicate 384 (1 / 2), valence = Some 0, arousal = Some 0\<rparr>"

definition decay_example :: GNNProcessor where
  "decay_example =
     example_processor\<lparr>external_memory :=
       \<lparr>memory_size = 5, key_dim = 4, keys = zeros2 5 4, vals = zeros2 5 4,
        usage = [1, 1 / 200, 1 / 500, 1 / 2, 1 / 1000], current_size = 5\<rparr>\<rparr>"


definition state_for :: "GNNProcessor \<Rightarrow> string \<Rightarrow> vec \<Rightarrow> bool" where
  \<comment> \<open>what \<^verbatim>\<open>_get_memory_states\<close> appends for an identity: the stored state, or a run of
      fresh variates of the generator when nothing is stored\<close>
  "state_for P nid st \<longleftrightarrow>
     (case node_memory_states P nid of
        Some s \<Rightarrow> st = s
      | None \<Rightarrow> (\<exists>k\<ge>randn_drawn P.
          st = map (\<lambda>j. randn_source P (k + j)) [0..<GNN_HIDDEN_DIM (settings P)]))"




section \<open>Names for two locals of the activation\<close>

definition cosine_similarities :: "matrix \<Rightarrow> vec \<Rightarrow> real list" where
  \<comment> \<open>the local \<^verbatim>\<open>similarities\<close> after both divisions, in closed form\<close>
  "cosine_similarities embs q =
     map (\<lambda>r. dot r q / (linalg_norm r + eps) / (linalg_norm q + eps)) embs"

definition top_indices_of :: "argsort \<Rightarrow> real list \<Rightarrow> int \<Rightarrow> nat list" where
  \<comment> \<open>the local \<^verbatim>\<open>top_indices\<close> of \<^verbatim>\<open>activate_memories\<close>\<close>
  "top_indices_of np_argsort final k = py_take k (rev (np_argsort final))"


section \<open>Auxiliary facts about the numpy operations\<close>

lemma argmin_loop_spec:
  assumes "length pre = i" "best < i" "pre ! best = bv"
    "\<forall>j<i. bv \<le> pre ! j" "\<forall>j<best. bv < pre ! j"
  shows "argmin_loop best bv i xs < length (pre @ xs) \<and>
         (\<forall>j<length (pre @ xs). (pre @ xs) ! argmin_loop best bv i xs \<le> (pre @ xs) ! j) \<and>
         (\<forall>j<argmin_loop best bv i xs. (pre @ xs) ! argmin_loop best bv i xs < (pre @ xs) ! j)"
  using assms
proof (induction xs arbitrary: pre best bv i)
  case Nil
  then show ?case by auto
next
  case (Cons x xs)
  show ?case
  proof (cases "x < bv")
    case True
    have "argmin_loop i x (Suc i) xs < length ((pre @ [x]) @ xs) \<and>
         (\<forall>j<length ((pre @ [x]) @ xs). ((pre @ [x]) @ xs) ! argmin_loop i x (Suc i) xs \<le> ((pre @ [x]) @ xs) ! j) \<and>
         (\<forall>j<argmin_loop i x (Suc i) xs. ((pre @ [x]) @ xs) ! argmin_loop i x (Suc i) xs < ((pre @ [x]) @ xs) ! j)"
    proof (rule Cons.IH)
      show "length (pre @ [x]) = Suc i" using Cons.prems by simp
      show "i < Suc i" by simp
      show "(pre @ [x]) ! i = x" using Cons.prems by (simp add: nth_append)
      have lt: "x < pre ! j" if "j < i" for j
      proof -
        have "bv \<le> pre ! j" using Cons.prems(4) that by blast
        then show ?thesis using True by linarith
      qed
      show "\<forall>j<Suc i. x \<le> (pre @ [x]) ! j"
        using Cons.prems(1) lt by (auto simp: nth_append less_Suc_eq intro: less_imp_le)
      show "\<forall>j<i. x < (pre @ [x]) ! j"
        using Cons.prems(1) lt by (auto simp: nth_append)
    qed
    then show ?thesis using True by simp
  next
    case False
    have "argmin_loop best bv (Suc i) xs < length ((pre @ [x]) @ xs) \<and>
         (\<forall>j<length ((pre @ [x]) @ xs). ((pre @ [x]) @ xs) ! argmin_loop best bv (Suc i) xs \<le> ((pre @ [x]) @ xs) ! j) \<and>
         (\<forall>j<argmin_loop best bv (Suc i) xs. ((pre @ [x]) @ xs) ! argmin_loop best bv (Suc i) xs < ((pre @ [x]) @ xs) ! j)"
    proof (rule Cons.IH)
      show "length (pre @ [x]) = Suc i" using Cons.prems by simp
      show "best < Suc i" using Cons.prems by simp
      show "(pre @ [x]) ! best = bv" using Cons.prems by (simp add: nth_append)
      show "\<forall>j<Suc i. bv \<le> (pre @ [x]) ! j"
        using Cons.prems False by (auto simp: nth_append less_Suc_eq)
      show "\<forall>j<best. bv < (pre @ [x]) ! j"
        using Cons.prems by (auto simp: nth_append)
    qed
    then show ?thesis using False by simp
  qed
qed

lemma np_argmin_spec:
  assumes "xs \<noteq> []"
  shows "\<exists>idx. np_argmin xs = Inr idx \<and> idx < length xs \<and>
           (\<forall>j<length xs. xs ! idx \<le> xs ! j) \<and> (\<forall>j<idx. xs ! idx < xs ! j)"
proof -
  obtain x rest where xs: "xs = x # rest" using assms by (cases xs) auto
  have "argmin_loop 0 x 1 rest < length ([x] @ rest) \<and>
         (\<forall>j<length ([x] @ rest). ([x] @ rest) ! argmin_loop 0 x 1 rest \<le> ([x] @ rest) ! j) \<and>
         (\<forall>j<argmin_loop 0 x 1 rest. ([x] @ rest) ! argmin_loop 0 x 1 rest < ([x] @ rest) ! j)"
    by (rule argmin_loop_spec) auto
  then show ?thesis by (simp add: np_argmin_def xs)
qed

lemma store_inv_init: "store_inv (ExternalMemory_init n d)"
  by (simp add: store_inv_def ExternalMemory_init_def zeros2_def zeros_def)

lemma broadcast_row_same: "length v = d \<Longrightarrow> broadcast_row d v = Inr v"
  by (simp add: broadcast_row_def)

lemma broadcast_row_fails: "length v \<noteq> d \<Longrightarrow> length v \<noteq> 1 \<Longrightarrow> broadcast_row d v = Inl ValueError"
  by (simp add: broadcast_row_def)

lemma broadcast_row_length: "broadcast_row d v = Inr k \<Longrightarrow> length k = d"
  by (auto simp: broadcast_row_def split: if_splits)


lemmas example_defs = example_settings_def example_weights_def example_randn_def
  example_processor_def default_processor_def default_settings_def
  node_a_def node_b_def node_short_def default_node_def
  GNNProcessor_init_def ExternalMemory_init_def

lemmas run_defs = activate_memories_def activate_body_def create_graph_data_def node_id_to_idx_def
  get_memory_states_def torch_randn_def update_memory_states_def
  GraphSAGEMemory_forward_def SAGEConv_def relu_def size_last_def matrix_add_def
  MemoryGRU_forward_def GRUCell_def MultiheadAttention_def Linear_def sigmoid_def
  np_dot_def dot_def linalg_norm_def rank_entries_def insertion_argsort_def py_take_def
  ExternalMemory_read_def zeros_def zeros2_def

lemma upt_small:
  "[0..<5] = [0, 1, 2, 3, 4]" "[0..<4] = [0, 1, 2, 3]" "[0..<3] = [0, 1, 2]"
  "[0..<2] = [0, 1]" "[0..<1] = [0]"
  by (simp_all add: upt_rec)

lemma foldl_zero_length: "length (foldl (\<lambda>u idx. u[idx := 0::real]) u is) = length u"
  by (induction "is" arbitrary: u) auto

lemma foldl_zero_nth:
  "i < length u \<Longrightarrow> foldl (\<lambda>u idx. u[idx := 0::real]) u is ! i = (if i \<in> set is then 0 else u ! i)"
proof (induction "is" arbitrary: u)
  case Nil
  then show ?case by simp
next
  case (Cons a "is")
  have "foldl (\<lambda>u idx. u[idx := 0]) (u[a := 0]) is ! i = (if i \<in> set is then 0 else u[a := 0] ! i)"
    using Cons.prems by (intro Cons.IH) simp
  then show ?case using Cons.prems by (auto simp: nth_list_update)
qed


section \<open>Eviction under capacity pressure\<close>

text \<open>
  Claim C7.  A call of \<^verbatim>\<open>ExternalMemory.write\<close> with a key and a value of the store's
  dimension, on a store whose \<open>N > 0\<close> slots are all occupied, replaces exactly one slot:
  the returned index is the first one whose usage is the minimum over all slots before the
  write, that slot receives the key, the value and the usage 1, every other slot is left as
  it was, and the number of occupied slots stays \<open>N\<close>.
\<close>

theorem write_at_capacity_evicts_least_used:
  assumes inv: "store_inv m" and full: "current_size m = memory_size m"
    and pos: "0 < memory_size m"
    and key: "length key = key_dim m" and val: "length value = key_dim m"
  shows "\<exists>idx. ExternalMemory_write key value m =
           (Inr idx, m\<lparr>keys := (keys m)[idx := key], vals := (vals m)[idx := value],
                       usage := (usage m)[idx := 1]\<rparr>) \<and>
           idx < memory_size m \<and>
           (\<forall>j<memory_size m. usage m ! idx \<le> usage m ! j) \<and>
           (\<forall>j<idx. usage m ! idx < usage m ! j) \<and>
           usage (snd (ExternalMemory_write key value m)) ! idx = 1 \<and>
           current_size (snd (ExternalMemory_write key value m)) \<le> memory_size m"
proof -
  have len: "length (usage m) = memory_size m" using inv by (simp add: store_inv_def)
  then have "usage m \<noteq> []" using pos by auto
  then obtain idx where idx: "np_argmin (usage m) = Inr idx" "idx < length (usage m)"
    "\<forall>j<length (usage m). usage m ! idx \<le> usage m ! j" "\<forall>j<idx. usage m ! idx < usage m ! j"
    using np_argmin_spec by blast
  have w: "ExternalMemory_write key value m =
           (Inr idx, m\<lparr>keys := (keys m)[idx := key], vals := (vals m)[idx := value],
                       usage := (usage m)[idx := 1]\<rparr>)"
    using full idx(1) key val
    by (simp add: ExternalMemory_write_def store_slot_def broadcast_row_def Let_def)
  show ?thesis
    using idx full len by (intro exI[of _ idx]) (simp add: w)
qed

theorem write_at_capacity_witness:
  "store_inv full_store \<and> current_size full_store = memory_size full_store \<and>
   ExternalMemory_write [9, 9] [8, 8] full_store =
     (Inr 1, full_store\<lparr>keys := [[1, 0], [9, 9], [1, 1]], vals := [[5, 5], [8, 8], [7, 7]],
                        usage := [1 / 2, 1, 1 / 5]\<rparr>)"
proof -
  have h: "store_inv full_store" "current_size full_store = memory_size full_store"
    "0 < memory_size full_store" "length [9, 9 :: real] = key_dim full_store"
    "length [8, 8 :: real] = key_dim full_store"
    by (simp_all add: store_inv_def full_store_def zeros_def)
  from write_at_capacity_evicts_least_used [OF h]
  obtain idx where w: "ExternalMemory_write [9, 9] [8, 8] full_store =
           (Inr idx, full_store\<lparr>keys := (keys full_store)[idx := [9, 9]],
              vals := (vals full_store)[idx := [8, 8]], usage := (usage full_store)[idx := 1]\<rparr>)"
     and lt: "idx < memory_size full_store"
     and mn: "\<forall>j<memory_size full_store. usage full_store ! idx \<le> usage full_store ! j"
     and fst: "\<forall>j<idx. usage full_store ! idx < usage full_store ! j"
    by blast
  have "idx = 1"
  proof -
    have "idx < 3" using lt by (simp add: full_store_def)
    then consider "idx = 0" | "idx = 1" | "idx = 2" by linarith
    then show ?thesis
    proof cases
      case 1 then show ?thesis using mn by (auto simp: full_store_def dest!: spec[of _ 1])
    next
      case 2 then show ?thesis .
    next
      case 3 then show ?thesis using fst by (auto simp: full_store_def dest!: spec[of _ 1])
    qed
  qed
  then show ?thesis using w h by (simp add: full_store_def)
qed



section \<open>The decay pass\<close>

text \<open>
  Claim C8.  After \<^verbatim>\<open>_apply_memory_decay\<close> with decay factor \<open>d\<close>, a slot's usage is its
  prior usage times \<open>d\<close>, except for the slots that are zeroed: of the slots whose decayed
  usage is below the threshold 0.01, listed by ascending slot index, the first half
  (rounded down) get usage 0.
\<close>

theorem decay_scales_usage_and_zeroes_first_half_of_low:
  fixes P :: GNNProcessor
  defines "u \<equiv> usage (external_memory P)"
    and "d \<equiv> MEMORY_DECAY_FACTOR (settings P)"
    and "u' \<equiv> usage (external_memory (apply_memory_decay P))"
  defines "low \<equiv> filter (\<lambda>i. u ! i * d < 1 / 100) [0..<length u]"
  shows "length u' = length u \<and>
         (\<forall>i<length u. u' ! i = (if i \<in> set (take (length low div 2) low) then 0 else u ! i * d))"
proof -
  have low: "filter (\<lambda>i. map (\<lambda>x. x * d) u ! i < 1 / 100) [0..<length u] = low"
    unfolding low_def by (rule filter_cong) auto
  have u': "u' = foldl (\<lambda>u idx. u[idx := 0]) (map (\<lambda>x. x * d) u) (take (length low div 2) low)"
    unfolding u'_def apply_memory_decay_def Let_def
    using low by (simp add: u_def d_def)
  show ?thesis
    unfolding u' by (simp add: foldl_zero_length foldl_zero_nth)
qed

theorem decay_witness:
  "usage (external_memory decay_example) = [1, 1 / 200, 1 / 500, 1 / 2, 1 / 1000] \<and>
   usage (external_memory (apply_memory_decay decay_example)) ! 0 = 19 / 20 \<and>
   usage (external_memory (apply_memory_decay decay_example)) ! 1 = 0 \<and>
   usage (external_memory (apply_memory_decay decay_example)) ! 2 = 19 / 10000 \<and>
   usage (external_memory (apply_memory_decay decay_example)) ! 4 = 19 / 20000"
proof -
  have u: "usage (external_memory decay_example) = [1, 1 / 200, 1 / 500, 1 / 2, 1 / 1000]"
    and d: "MEMORY_DECAY_FACTOR (settings decay_example) = 95 / 100"
    by (simp_all add: decay_example_def example_defs)
  have low: "filter (\<lambda>i. usage (external_memory decay_example) ! i *
                 MEMORY_DECAY_FACTOR (settings decay_example) < 1 / 100)
               [0..<length (usage (external_memory decay_example))] = [1, 2, 4]"
    by (simp add: u d upt_small)
  have "\<forall>i<5. usage (external_memory (apply_memory_decay decay_example)) ! i =
          (if i \<in> set (take (length [1, 2, 4 :: nat] div 2) [1, 2, 4]) then 0
           else [1, 1 / 200, 1 / 500, 1 / 2, 1 / 1000] ! i * (95 / 100))"
    using decay_scales_usage_and_zeroes_first_half_of_low [of decay_example]
    unfolding low by (simp add: u d)
  then have "\<forall>i<5. usage (external_memory (apply_memory_decay decay_example)) ! i =
          (if i = 1 then 0 else [1, 1 / 200, 1 / 500, 1 / 2, 1 / 1000] ! i * (95 / 100))"
    by simp
  then show ?thesis using u by simp
qed


section \<open>A write that fails half way\<close>

lemma store_slot_fail:
  "broadcast_row (key_dim m) key = Inl e \<Longrightarrow> store_slot idx key value m = (Inl e, m)"
  by (simp add: store_slot_def)

text \<open>
  Claim C10.  \<^verbatim>\<open>ExternalMemory.write\<close> is not atomic on error: on a store below capacity,
  when storing the key into the slot raises (as for a key whose length is neither the
  store's key dimension nor one), the counter \<open>current_size\<close> has already been
  incremented, so the store counts one more occupied slot, and that slot's key, value and
  usage are still the zeros they were allocated with.
\<close>

theorem write_not_atomic_on_error:
  assumes inv: "store_inv m" and room: "current_size m < memory_size m"
    and fails: "broadcast_row (key_dim m) key = Inl e"
  shows "ExternalMemory_write key value m = (Inl e, m\<lparr>current_size := current_size m + 1\<rparr>) \<and>
         keys m ! current_size m = zeros (key_dim m) \<and>
         vals m ! current_size m = zeros (key_dim m) \<and>
         usage m ! current_size m = 0"
proof -
  have "ExternalMemory_write key value m = (Inl e, m\<lparr>current_size := current_size m + 1\<rparr>)"
    using room fails by (simp add: ExternalMemory_write_def store_slot_def)
  moreover have "current_size m \<in> {current_size m..<memory_size m}" using room by simp
  then have "keys m ! current_size m = zeros (key_dim m) \<and>
         vals m ! current_size m = zeros (key_dim m) \<and> usage m ! current_size m = 0"
    using inv unfolding store_inv_def by blast
  ultimately show ?thesis by simp
qed

theorem write_not_atomic_witness:
  "store_inv (external_memory default_processor) \<and>
   key_dim (external_memory default_processor) = 128 \<and>
   ExternalMemory_write (replicate 384 (1 / 2)) (replicate 384 (1 / 2)) (external_memory default_processor) =
     (Inl ValueError, (external_memory default_processor)\<lparr>current_size := 1\<rparr>)"
proof -
  have m: "external_memory default_processor = ExternalMemory_init 10000 128"
    by (simp add: default_processor_def GNNProcessor_init_def default_settings_def)
  have h: "store_inv (ExternalMemory_init 10000 128)"
    "current_size (ExternalMemory_init 10000 128) < memory_size (ExternalMemory_init 10000 128)"
    "broadcast_row (key_dim (ExternalMemory_init 10000 128)) (replicate 384 (1 / 2)) = Inl ValueError"
    by (rule store_inv_init) (simp_all add: ExternalMemory_init_def broadcast_row_def)
  show ?thesis
    using write_not_atomic_on_error [OF h, of "replicate 384 (1 / 2)"] h(1)
    by (simp add: m) (simp add: ExternalMemory_init_def)
qed


section \<open>Recording an interaction\<close>

text \<open>
  Claim C5.  The claim is that every call of \<^verbatim>\<open>update_memory_with_interaction\<close> writes the
  pair (embedding, embedding) into the external memory and then runs the decay pass.  The
  store is built with key dimension \<open>GNN_HIDDEN_DIM\<close> while interaction embeddings have
  \<open>VECTOR_DIMENSION\<close> entries.  The theorem evaluates the code on an embedding whose length
  is neither the key dimension nor one: the write raises, the handler swallows the error,
  and the call leaves keys, values and usage untouched (nothing is written, nothing
  decays); only the occupied-slot counter moves when the store is below capacity.
\<close>

theorem interaction_with_mismatched_embedding_is_dropped:
  assumes "length e \<noteq> key_dim (external_memory P)" and "length e \<noteq> 1"
  shows "update_memory_with_interaction user_input system_response e emotion_scores P =
         P\<lparr>external_memory := (external_memory P)
             \<lparr>current_size :=
                (if current_size (external_memory P) < memory_size (external_memory P)
                 then current_size (external_memory P) + 1
                 else current_size (external_memory P))\<rparr>\<rparr>"
proof -
  have b: "broadcast_row (key_dim (external_memory P)) e = Inl ValueError"
    using assms by (simp add: broadcast_row_def)
  show ?thesis
  proof (cases "current_size (external_memory P) < memory_size (external_memory P)")
    case True
    then show ?thesis
      using b by (simp add: update_memory_with_interaction_def ExternalMemory_write_def store_slot_def)
  next
    case False
    then show ?thesis
      using b
      by (cases "np_argmin (usage (external_memory P))")
         (simp_all add: update_memory_with_interaction_def ExternalMemory_write_def store_slot_def)
  qed
qed

theorem interaction_with_default_dimensions_witness:
  "key_dim (external_memory default_processor) = GNN_HIDDEN_DIM default_settings \<and>
   update_memory_with_interaction ''hi'' ''hello'' (replicate (VECTOR_DIMENSION default_settings) (1 / 2))
       Map.empty default_processor =
     default_processor\<lparr>external_memory := (external_memory default_processor)\<lparr>current_size := 1\<rparr>\<rparr>"
proof -
  have h: "length (replicate (VECTOR_DIMENSION default_settings) (1 / 2 :: real))
             \<noteq> key_dim (external_memory default_processor)"
    "length (replicate (VECTOR_DIMENSION default_settings) (1 / 2 :: real)) \<noteq> 1"
    by (simp_all add: default_processor_def GNNProcessor_init_def default_settings_def
        ExternalMemory_init_def)
  show ?thesis
    using interaction_with_mismatched_embedding_is_dropped [OF h, of "''hi''" "''hello''" Map.empty]
    by (simp add: default_processor_def GNNProcessor_init_def default_settings_def
        ExternalMemory_init_def)
qed



section \<open>The previous hidden state of a record seen for the first time\<close>

lemma states_loop_facts:
  "states_loop ids acc P = (states, P') \<Longrightarrow>
     settings P' = settings P \<and> randn_source P' = randn_source P \<and> model P' = model P \<and>
     external_memory P' = external_memory P \<and> randn_drawn P \<le> randn_drawn P' \<and>
     length states = length acc + length ids \<and> take (length acc) states = acc \<and>
     (\<forall>i<length ids. node_memory_states P' (ids ! i) = Some (states ! (length acc + i)) \<and>
                      state_for P (ids ! i) (states ! (length acc + i))) \<and>
     (\<forall>nid s. node_memory_states P nid = Some s \<longrightarrow> node_memory_states P' nid = Some s)"
proof (induction ids arbitrary: acc P)
  case Nil
  then show ?case by simp
next
  case (Cons nid rest)
  show ?case
  proof (cases "node_memory_states P nid")
    case (Some s)
    then have run: "states_loop rest (acc @ [s]) P = (states, P')"
      using Cons.prems by simp
    note IH = Cons.IH [OF run]
    have tk: "take (Suc (length acc)) states = acc @ [s]" using IH by simp
    have len: "length acc < length states" using IH by simp
    have hd: "states ! length acc = s"
      using tk len by (metis lessI nth_append_length nth_take)
    have "take (length acc) (take (Suc (length acc)) states) = take (length acc) (acc @ [s])"
      using tk by simp
    then have tk0: "take (length acc) states = acc" by simp
    have kept: "node_memory_states P' nid = Some s" using IH Some by blast
    have each: "node_memory_states P' ((nid # rest) ! i) = Some (states ! (length acc + i)) \<and>
                state_for P ((nid # rest) ! i) (states ! (length acc + i))"
      if "i < length (nid # rest)" for i
    proof (cases i)
      case 0
      then show ?thesis using hd kept Some by (simp add: state_for_def)
    next
      case (Suc i')
      then have "i' < length rest" using that by simp
      then show ?thesis using IH Suc by simp
    qed
    show ?thesis using IH tk0 each by simp
  next
    case None
    define st where "st = map (\<lambda>j. randn_source P (randn_drawn P + j)) [0..<GNN_HIDDEN_DIM (settings P)]"
    define P2 where "P2 = P\<lparr>randn_drawn := randn_drawn P + GNN_HIDDEN_DIM (settings P),
                          node_memory_states := (node_memory_states P)(nid \<mapsto> st)\<rparr>"
    have run: "states_loop rest (acc @ [st]) P2 = (states, P')"
      using Cons.prems None by (simp add: torch_randn_def st_def P2_def)
    note IH = Cons.IH [OF run]
    have P2: "settings P2 = settings P" "randn_source P2 = randn_source P" "model P2 = model P"
      "external_memory P2 = external_memory P"
      "randn_drawn P2 = randn_drawn P + GNN_HIDDEN_DIM (settings P)"
      "node_memory_states P2 = (node_memory_states P)(nid \<mapsto> st)"
      by (simp_all add: P2_def)
    have tk: "take (Suc (length acc)) states = acc @ [st]" using IH by simp
    have len: "length acc < length states" using IH by simp
    have hd: "states ! length acc = st"
      using tk len by (metis lessI nth_append_length nth_take)
    have "take (length acc) (take (Suc (length acc)) states) = take (length acc) (acc @ [st])"
      using tk by simp
    then have tk0: "take (length acc) states = acc" by simp
    have kept: "node_memory_states P' nid = Some st" using IH P2 by simp
    have drawn: "state_for P nid st"
      using None by (auto simp: state_for_def st_def)
    have each: "node_memory_states P' ((nid # rest) ! i) = Some (states ! (length acc + i)) \<and>
                state_for P ((nid # rest) ! i) (states ! (length acc + i))"
      if "i < length (nid # rest)" for i
    proof (cases i)
      case 0
      then show ?thesis using hd kept drawn by simp
    next
      case (Suc i')
      then have i': "i' < length rest" using that by simp
      then have a: "node_memory_states P' (rest ! i') = Some (states ! (length acc + i))"
        and b: "state_for P2 (rest ! i') (states ! (length acc + i))"
        using IH Suc by simp_all
      have "state_for P (rest ! i') (states ! (length acc + i))"
      proof (cases "rest ! i' = nid")
        case True
        then have "states ! (length acc + i) = st" using b P2 by (simp add: state_for_def)
        then show ?thesis using True drawn by simp
      next
        case False
        then show ?thesis using b P2
          by (auto simp: state_for_def split: option.splits intro: le_trans add_leD1)
      qed
      then show ?thesis using a Suc by simp
    qed
    have old: "node_memory_states P' n = Some s" if "node_memory_states P n = Some s" for n s
    proof -
      have "n \<noteq> nid" using that None by auto
      then have "node_memory_states P2 n = Some s" using that P2 by simp
      then show ?thesis using IH by blast
    qed
    show ?thesis using IH P2 tk0 each old by simp
  qed
qed

lemma state_for_length:
  assumes "state_for P nid st" "\<forall>s\<in>ran (node_memory_states P). length s = GNN_HIDDEN_DIM (settings P)"
  shows "length st = GNN_HIDDEN_DIM (settings P)"
proof (cases "node_memory_states P nid")
  case None
  then obtain k where "st = map (\<lambda>j. randn_source P (k + j)) [0..<GNN_HIDDEN_DIM (settings P)]"
    using assms(1) by (auto simp: state_for_def)
  then show ?thesis by simp
next
  case (Some s)
  then have "st = s" using assms(1) by (simp add: state_for_def)
  moreover have "s \<in> ran (node_memory_states P)" using Some by (rule ranI)
  ultimately show ?thesis using assms(2) by blast
qed

lemma replicate_small:
  "replicate 4 v = [v, v, v, v]" "replicate 3 v = [v, v, v]" "replicate 2 v = [v, v]"
  by (simp_all add: numeral_eq_Suc)

text \<open>
  Claim C2, as the code has it.  For an identity with no stored state,
  \<^verbatim>\<open>_get_memory_states\<close> does not use the zero vector: it draws \<open>GNN_HIDDEN_DIM\<close> fresh
  variates with \<^verbatim>\<open>torch.randn\<close>, stores them for the identity, and hands them to the GRU
  cell as the previous state (provided the states already stored have the hidden dimension,
  as every state written by the processor has).  \<^verbatim>\<open>MemoryGRU.forward\<close> falls back to zeros
  only when it is given no states at all.
\<close>

theorem absent_state_is_drawn_from_randn:
  assumes i: "i < length ids" and absent: "node_memory_states P (ids ! i) = None"
    and stored: "\<forall>s\<in>ran (node_memory_states P). length s = GNN_HIDDEN_DIM (settings P)"
  shows "\<exists>states k. get_memory_states ids P = (Some states, snd (get_memory_states ids P)) \<and>
           length states = length ids \<and> randn_drawn P \<le> k \<and>
           states ! i = map (\<lambda>j. randn_source P (k + j)) [0..<GNN_HIDDEN_DIM (settings P)] \<and>
           length (states ! i) = GNN_HIDDEN_DIM (settings P) \<and>
           node_memory_states (snd (get_memory_states ids P)) (ids ! i) = Some (states ! i) \<and>
           MemoryGRU_forward M X (fst (get_memory_states ids P)) =
             GRUCell (hidden_dim M) (hidden_dim M) (gru_weights M) X states"
proof -
  obtain states P' where run: "states_loop ids [] P = (states, P')"
    by (cases "states_loop ids [] P") auto
  note F = states_loop_facts [OF run]
  have len: "length states = length ids"
  proof -
    have "length states = length ([] :: matrix) + length ids" using F by blast
    then show ?thesis by simp
  qed
  have F7: "\<forall>j<length ids.
      node_memory_states P' (ids ! j) = Some (states ! (length ([] :: matrix) + j)) \<and>
      state_for P (ids ! j) (states ! (length ([] :: matrix) + j))"
    using F by blast
  have each: "node_memory_states P' (ids ! j) = Some (states ! j) \<and> state_for P (ids ! j) (states ! j)"
    if "j < length ids" for j
    using F7 that by simp
  have lens: "length s = GNN_HIDDEN_DIM (settings P)" if s: "s \<in> set states" for s
  proof -
    obtain j where j: "j < length states" "states ! j = s"
      using s unfolding in_set_conv_nth by blast
    have "j < length ids" using j(1) unfolding len .
    from each [OF this] have "state_for P (ids ! j) (states ! j)" by (rule conjunct2)
    then have "state_for P (ids ! j) s" unfolding j(2) .
    then show ?thesis by (rule state_for_length [OF _ stored])
  qed
  have ne: "states \<noteq> []" using len i by auto
  then have hd_in: "hd states \<in> set states" by simp
  have same: "\<forall>s\<in>set states. length s = length (hd states)"
  proof
    fix s assume "s \<in> set states"
    then have a: "length s = GNN_HIDDEN_DIM (settings P)" by (rule lens)
    have b: "length (hd states) = GNN_HIDDEN_DIM (settings P)" using hd_in by (rule lens)
    show "length s = length (hd states)" by (simp only: a b)
  qed
  have "(if \<forall>s\<in>set states. length s = length (hd states) then Some states else None) =
          Some states"
    using same by (rule if_P)
  then have g: "get_memory_states ids P = (Some states, P')"
    using run ne by (simp add: get_memory_states_def)
  obtain k where k: "randn_drawn P \<le> k"
    "states ! i = map (\<lambda>j. randn_source P (k + j)) [0..<GNN_HIDDEN_DIM (settings P)]"
    using each [OF i] absent by (auto simp: state_for_def)
  show ?thesis
    using g len k each [OF i]
    by (intro exI[of _ states] exI[of _ k]) (simp add: MemoryGRU_forward_def)
qed

theorem absent_state_witness:
  "node_memory_states example_processor ''a'' = None \<and>
   (\<exists>states k.
      get_memory_states [''a''] example_processor =
        (Some states, snd (get_memory_states [''a''] example_processor)) \<and>
      states ! 0 = map (\<lambda>j. example_randn (k + j)) [0..<4] \<and>
      node_memory_states (snd (get_memory_states [''a''] example_processor)) ''a'' = Some (states ! 0))"
proof -
  have h: "0 < length [''a'']" "node_memory_states example_processor ([''a''] ! 0) = None"
    "\<forall>s\<in>ran (node_memory_states example_processor).
        length s = GNN_HIDDEN_DIM (settings example_processor)"
    by (simp_all add: example_processor_def GNNProcessor_init_def)
  have s: "randn_source example_processor = example_randn"
    "GNN_HIDDEN_DIM (settings example_processor) = 4"
    by (simp_all add: example_processor_def GNNProcessor_init_def example_settings_def)
  from absent_state_is_drawn_from_randn [OF h, where M = example_weights and X = "[]"]
  obtain states k where
    "get_memory_states [''a''] example_processor =
        (Some states, snd (get_memory_states [''a''] example_processor))"
    "states ! 0 = map (\<lambda>j. randn_source example_processor (k + j))
                    [0..<GNN_HIDDEN_DIM (settings example_processor)]"
    "node_memory_states (snd (get_memory_states [''a''] example_processor)) ([''a''] ! 0) =
       Some (states ! 0)"
    by blast
  then show ?thesis using h(2) unfolding s by auto
qed

text \<open>
  The claim C2 as stated fails: on the freshly built example processor the state used for
  the unseen identity \<open>a\<close> is the first four variates of the generator, not the zero
  vector.
\<close>

theorem absent_state_not_zero_counterexample:
  "node_memory_states example_processor ''a'' = None \<and>
   fst (get_memory_states [''a''] example_processor) = Some [[0, 1 / 2, 1, 3 / 2]] \<and>
   [0, 1 / 2, 1, 3 / 2] \<noteq> zeros (GNN_HIDDEN_DIM (settings example_processor))"
  by (simp add: get_memory_states_def torch_randn_def example_defs upt_small zeros_def
      replicate_small)


section \<open>The top-k indices and the shapes inside the network\<close>



lemma argsort_set: "argsort_spec A \<Longrightarrow> set (A xs) = {0..<length xs}"
  by (simp add: argsort_spec_def)

lemma argsort_length: "argsort_spec A \<Longrightarrow> length (A xs) = length xs"
  by (simp add: argsort_spec_def)

lemma py_take_length:
  "length (py_take k ys) = (if 0 \<le> k then min (nat k) (length ys) else nat (int (length ys) + k))"
  by (auto simp: py_take_def)

lemma py_take_set: "set (py_take k ys) \<subseteq> set ys"
  by (auto simp: py_take_def dest: in_set_takeD)

lemma top_indices_facts:
  assumes "argsort_spec A"
  shows "set (top_indices_of A final k) \<subseteq> {0..<length final}"
    and "length (top_indices_of A final k) =
           (if 0 \<le> k then min (nat k) (length final) else nat (int (length final) + k))"
proof -
  show "set (top_indices_of A final k) \<subseteq> {0..<length final}"
    unfolding top_indices_of_def using py_take_set [of k "rev (A final)"]
    by (simp add: argsort_set [OF assms])
  show "length (top_indices_of A final k) =
     (if 0 \<le> k then min (nat k) (length final) else nat (int (length final) + k))"
    unfolding top_indices_of_def by (simp add: py_take_length argsort_length [OF assms])
qed

lemma rank_entries_eq:
  assumes "argsort_spec A" and "length final = length nodes"
  shows "rank_entries A nodes final sims k =
         map (\<lambda>idx. \<lparr>memory = nodes ! idx, activation_score = final ! idx,
                       similarity_score = sims ! idx\<rparr>) (top_indices_of A final k)"
proof -
  have "filter (\<lambda>idx. idx < length nodes) (top_indices_of A final k) = top_indices_of A final k"
    using top_indices_facts(1) [OF assms(1), of final k] assms(2) by (intro filter_True) auto
  then show ?thesis by (simp add: rank_entries_def top_indices_of_def Let_def)
qed

lemma rank_entries_entry:
  assumes "r \<in> set (rank_entries A nodes final sims k)"
  shows "\<exists>idx<length nodes. r = \<lparr>memory = nodes ! idx, activation_score = final ! idx,
                                    similarity_score = sims ! idx\<rparr>"
  using assms by (auto simp: rank_entries_def Let_def)

lemma cosine_similarities_eq:
  "map (\<lambda>s. s / (linalg_norm q + eps))
     (map2 (\<lambda>s r. s / (linalg_norm r + eps)) (map (\<lambda>r. dot r q) embs) embs) =
   cosine_similarities embs q"
  by (induction embs) (simp_all add: cosine_similarities_def)

lemma create_graph_data_rows:
  "create_graph_data nodes edges = Inr (feat, ei, attr) \<Longrightarrow>
     feat = (if nodes = [] then []
             else map (\<lambda>n. embedding n @ [case valence n of None \<Rightarrow> 0 | Some v \<Rightarrow> v,
                                            case arousal n of None \<Rightarrow> 0 | Some a \<Rightarrow> a]) nodes) \<and>
     (\<forall>r\<in>set feat. length r = length (hd feat))"
  by (auto simp: create_graph_data_def Let_def split: if_splits prod.splits)

lemma SAGEConv_length: "SAGEConv ic oc w X ei = Inr Y \<Longrightarrow> length Y = length X"
  by (auto simp: SAGEConv_def split: if_splits)

lemma SAGEConv_input: "SAGEConv ic oc w X ei = Inr Y \<Longrightarrow> r \<in> set X \<Longrightarrow> length r = ic"
  by (auto simp: SAGEConv_def split: if_splits)

lemma matrix_add_length: "length (matrix_add X Y) = min (length X) (length Y)"
  by (simp add: matrix_add_def)

lemma conv_loop_length: "conv_loop M ei ls X = Inr Y \<Longrightarrow> length Y = length X"
proof (induction ls arbitrary: X)
  case Nil
  then show ?case by simp
next
  case (Cons i rest)
  let ?c = "SAGEConv (if i = 0 then input_dim M + 2 else hidden_dim M) (hidden_dim M)
              (conv_weights M i) X ei"
  obtain conv_out where c: "?c = Inr conv_out"
    using Cons.prems by (cases ?c) simp_all
  let ?x_new = "map (map relu) conv_out"
  let ?next = "if 0 < i \<and> size_last X = size_last ?x_new then matrix_add X ?x_new else ?x_new"
  have "conv_loop M ei rest ?next = Inr Y" using Cons.prems c by (simp add: Let_def)
  then have "length Y = length ?next" by (rule Cons.IH)
  moreover have "length ?next = length X"
    using SAGEConv_length [OF c] by (simp add: matrix_add_length)
  ultimately show ?case by simp
qed

lemma conv_loop_first_input:
  "conv_loop M ei (0 # rest) X = Inr Y \<Longrightarrow> r \<in> set X \<Longrightarrow> length r = input_dim M + 2"
proof -
  assume a: "conv_loop M ei (0 # rest) X = Inr Y" and r: "r \<in> set X"
  obtain conv_out where "SAGEConv (input_dim M + 2) (hidden_dim M) (conv_weights M 0) X ei = Inr conv_out"
    using a by (cases "SAGEConv (input_dim M + 2) (hidden_dim M) (conv_weights M 0) X ei") simp_all
  then show ?thesis using r by (rule SAGEConv_input)
qed

lemma layer_list: "[0..<1 + (n - 1)] = 0 # [1..<1 + (n - 1)]"
  by (simp add: upt_rec)

lemma forward_facts:
  assumes "GraphSAGEMemory_forward M (feat, ei, attr) ms = Inr out"
  shows "length (node_embeddings out) = length feat"
    and "length (concat (activation_scores out)) = length feat"
    and "\<forall>r\<in>set feat. length r = input_dim M + 2"
proof -
  let ?cl = "conv_loop M ei [0..<1 + (num_layers M - 1)] feat"
  obtain embs where e: "?cl = Inr embs"
    using assms by (cases ?cl) (simp_all add: GraphSAGEMemory_forward_def)
  obtain nms where g: "MemoryGRU_forward M embs ms = Inr nms"
    using assms e by (cases "MemoryGRU_forward M embs ms") (simp_all add: GraphSAGEMemory_forward_def)
  obtain att where a: "MultiheadAttention (hidden_dim M) (attention_weights M) nms = Inr att"
    using assms e g
    by (cases "MultiheadAttention (hidden_dim M) (attention_weights M) nms")
       (simp_all add: GraphSAGEMemory_forward_def)
  let ?comb = "matrix_add embs att"
  obtain act where l1: "Linear (hidden_dim M) 1 (activation_weights M) ?comb = Inr act"
    using assms e g a
    by (cases "Linear (hidden_dim M) 1 (activation_weights M) ?comb")
       (simp_all add: GraphSAGEMemory_forward_def)
  obtain emo where l2: "Linear (hidden_dim M) 2 (emotion_weights M) ?comb = Inr emo"
    using assms e g a l1
    by (cases "Linear (hidden_dim M) 2 (emotion_weights M) ?comb")
       (simp_all add: GraphSAGEMemory_forward_def)
  have out: "out = \<lparr>node_embeddings = ?comb, activation_scores = map (map sigmoid) act,
                emotion_predictions = map (map tanh) emo, memory_states = nms\<rparr>"
    using assms e g a l1 l2 by (simp add: GraphSAGEMemory_forward_def)
  have le: "length embs = length feat" using e by (rule conv_loop_length)
  have ln: "length nms = length embs"
    using g by (auto simp: MemoryGRU_forward_def GRUCell_def Let_def split: if_splits)
  have la: "length att = length nms"
    using a by (auto simp: MultiheadAttention_def split: if_splits)
  show n: "length (node_embeddings out) = length feat"
    using le ln la by (simp add: out matrix_add_length)
  have "act = map (\<lambda>r. [activation_weights M r 0]) ?comb"
    using l1 by (auto simp: Linear_def split: if_splits)
  then have "concat (activation_scores out) =
           map (\<lambda>r. sigmoid (activation_weights M r 0)) (node_embeddings out)"
    by (simp add: out comp_def)
  then show "length (concat (activation_scores out)) = length feat" using n by simp
  show "\<forall>r\<in>set feat. length r = input_dim M + 2"
    using e conv_loop_first_input unfolding layer_list by blast
qed

lemma get_memory_states_model:
  "get_memory_states ids P = (ms, P1) \<Longrightarrow> model P1 = model P"
proof -
  assume a: "get_memory_states ids P = (ms, P1)"
  obtain states P' where run: "states_loop ids [] P = (states, P')"
    by (cases "states_loop ids [] P") auto
  have "P1 = P'" using a run by (simp add: get_memory_states_def)
  moreover have "model P' = model P" using states_loop_facts [OF run] by blast
  ultimately show ?thesis by simp
qed

lemma activate_body_success:
  assumes run: "activate_body A nodes edges q k P = (Inr res, P')" and ne: "nodes \<noteq> []"
  shows "\<exists>graph out.
           create_graph_data nodes edges = Inr graph \<and>
           GraphSAGEMemory_forward (model P) graph
             (fst (get_memory_states (map node_id nodes) P)) = Inr out \<and>
           length (node_embeddings out) = length nodes \<and>
           length (concat (activation_scores out)) = length nodes \<and>
           length q = hidden_dim (model P) \<and>
           (\<forall>n\<in>set nodes. length (embedding n) = input_dim (model P)) \<and>
           res = rank_entries A nodes
                   (map2 (\<lambda>s a. 7 / 10 * s + 3 / 10 * a)
                      (cosine_similarities (node_embeddings out) q)
                      (concat (activation_scores out)))
                   (cosine_similarities (node_embeddings out) q) k"
proof -
  obtain feat ei attr where cg: "create_graph_data nodes edges = Inr (feat, ei, attr)"
  proof (cases "create_graph_data nodes edges")
    case (Inl e)
    then show ?thesis using run ne by (simp add: activate_body_def)
  next
    case (Inr g)
    then show ?thesis using that by (cases g) auto
  qed
  obtain ms P1 where gm: "get_memory_states (map node_id nodes) P = (ms, P1)"
    by (cases "get_memory_states (map node_id nodes) P") auto
  have m1: "model P1 = model P" using gm by (rule get_memory_states_model)
  obtain out where fw: "GraphSAGEMemory_forward (model P) (feat, ei, attr) ms = Inr out"
  proof (cases "GraphSAGEMemory_forward (model P) (feat, ei, attr) ms")
    case (Inl e)
    then show ?thesis using run ne cg gm m1 by (simp add: activate_body_def)
  next
    case (Inr o')
    then show ?thesis using that by blast
  qed
  have m2: "model (update_memory_states (map node_id nodes) (memory_states out) P1) = model P"
    by (simp add: update_memory_states_def m1)
  define embs where "embs = node_embeddings out"
  define acts where "acts = concat (activation_scores out)"
  define sims where "sims = cosine_similarities embs q"
  define final where "final = map2 (\<lambda>s a. 7 / 10 * s + 3 / 10 * a) sims acts"
  have feat: "feat = map (\<lambda>n. embedding n @ [case valence n of None \<Rightarrow> 0 | Some v \<Rightarrow> v,
                                            case arousal n of None \<Rightarrow> 0 | Some a \<Rightarrow> a]) nodes"
    using create_graph_data_rows [OF cg] ne by simp
  have lf: "length feat = length nodes" by (simp add: feat)
  have le: "length embs = length nodes"
    using forward_facts(1) [OF fw] lf by (simp add: embs_def)
  have la: "length acts = length nodes"
    using forward_facts(2) [OF fw] lf by (simp add: acts_def)
  have emb_len: "\<forall>n\<in>set nodes. length (embedding n) = input_dim (model P)"
  proof
    fix n assume "n \<in> set nodes"
    then have "embedding n @ [case valence n of None \<Rightarrow> 0 | Some v \<Rightarrow> v,
                              case arousal n of None \<Rightarrow> 0 | Some a \<Rightarrow> a] \<in> set feat"
      unfolding feat set_map by (rule imageI)
    then have "length (embedding n @ [case valence n of None \<Rightarrow> 0 | Some v \<Rightarrow> v,
                              case arousal n of None \<Rightarrow> 0 | Some a \<Rightarrow> a]) = input_dim (model P) + 2"
      using forward_facts(3) [OF fw] by blast
    then show "length (embedding n) = input_dim (model P)" by simp
  qed
  have "\<exists>d. np_dot (hidden_dim (model P)) embs q = Inr d \<and>
          res = rank_entries A nodes
                  (map2 (\<lambda>s a. 7 / 10 * s + 3 / 10 * a)
                     (map (\<lambda>s. s / (linalg_norm q + eps))
                        (map2 (\<lambda>s r. s / (linalg_norm r + eps)) d embs)) acts)
                  (map (\<lambda>s. s / (linalg_norm q + eps))
                     (map2 (\<lambda>s r. s / (linalg_norm r + eps)) d embs)) k"
    using run ne cg gm fw m1 m2
    by (auto simp: activate_body_def Let_def embs_def acts_def update_memory_states_def
             split: sum.splits prod.splits)
  then obtain d where d: "np_dot (hidden_dim (model P)) embs q = Inr d"
    and r: "res = rank_entries A nodes
                  (map2 (\<lambda>s a. 7 / 10 * s + 3 / 10 * a)
                     (map (\<lambda>s. s / (linalg_norm q + eps))
                        (map2 (\<lambda>s r. s / (linalg_norm r + eps)) d embs)) acts)
                  (map (\<lambda>s. s / (linalg_norm q + eps))
                     (map2 (\<lambda>s r. s / (linalg_norm r + eps)) d embs)) k"
    by blast
  have lq: "length q = hidden_dim (model P)" and dd: "d = map (\<lambda>r. dot r q) embs"
    using d by (auto simp: np_dot_def split: if_splits)
  have res: "res = rank_entries A nodes final sims k"
    unfolding r dd cosine_similarities_eq final_def sims_def ..
  have fw': "GraphSAGEMemory_forward (model P) (feat, ei, attr)
               (fst (get_memory_states (map node_id nodes) P)) = Inr out"
    using fw gm by simp
  show ?thesis
    using cg fw' le la lq emb_len res unfolding final_def sims_def embs_def acts_def by blast
qed

lemma activate_memories_cases:
  obtains (failed) e P' where "activate_body A nodes edges q k P = (Inl e, P')"
      "activate_memories A nodes edges q k P = ([], P')"
  | (empty) "nodes = []" "activate_memories A nodes edges q k P = ([], P)"
  | (ranked) res P' where "nodes \<noteq> []" "activate_body A nodes edges q k P = (Inr res, P')"
      "activate_memories A nodes edges q k P = (res, P')"
proof (cases "nodes = []")
  case True
  then have "activate_memories A nodes edges q k P = ([], P)"
    by (simp add: activate_memories_def activate_body_def)
  then show ?thesis using True by (rule empty [rotated])
next
  case False
  obtain r P' where b: "activate_body A nodes edges q k P = (r, P')"
    by (cases "activate_body A nodes edges q k P") auto
  show ?thesis
  proof (cases r)
    case (Inl e)
    then show ?thesis using b failed by (simp add: activate_memories_def)
  next
    case (Inr res)
    then show ?thesis using b False ranked by (simp add: activate_memories_def)
  qed
qed


section \<open>Runs of the example processor\<close>

lemmas eval_simps = run_defs example_defs upt_small replicate_small Let_def eps_def

lemma run_a_b:
  "fst (activate_memories insertion_argsort [node_a, node_b] [] [1, 0, 0, 0] 2 example_processor) =
   [\<lparr>memory = node_a, activation_score = 7 / 10 * (1 / (1 + eps) / (1 + eps)) + 3 / 20,
      similarity_score = 1 / (1 + eps) / (1 + eps)\<rparr>,
    \<lparr>memory = node_b, activation_score = 3 / 20, similarity_score = 0\<rparr>]"
  by (simp add: eval_simps)

lemma run_a_opposite:
  "fst (activate_memories insertion_argsort [node_a] [] [- 1, 0, 0, 0] 1 example_processor) =
   [\<lparr>memory = node_a, activation_score = 7 / 10 * (- 1 / (1 + eps) / (1 + eps)) + 3 / 20,
      similarity_score = - 1 / (1 + eps) / (1 + eps)\<rparr>]"
  by (simp add: eval_simps)

lemma run_short_embedding:
  "fst (activate_memories insertion_argsort [node_short, node_b] [] [0, 1, 0, 0] 2
          example_processor) = []"
  by (simp add: eval_simps)

lemma run_zero_substituted:
  "fst (activate_memories insertion_argsort [node_short\<lparr>embedding := zeros 4\<rparr>, node_b] []
          [0, 1, 0, 0] 2 example_processor) =
   [\<lparr>memory = node_b, activation_score = 7 / 10 * (1 / (1 + eps) / (1 + eps)) + 3 / 20,
      similarity_score = 1 / (1 + eps) / (1 + eps)\<rparr>,
    \<lparr>memory = node_short\<lparr>embedding := zeros 4\<rparr>, activation_score = 3 / 20, similarity_score = 0\<rparr>]"
  by (simp add: eval_simps)


section \<open>Length of the ranked list\<close>

lemma ranked_list_length_when_no_step_raises:
  assumes "argsort_spec A"
  shows "case fst (activate_body A nodes edges q k P) of
     Inl e \<Rightarrow> fst (activate_memories A nodes edges q k P) = []
   | Inr res \<Rightarrow>
       fst (activate_memories A nodes edges q k P) = res \<and>
       length res = (if 0 \<le> k then min (nat k) (length nodes) else nat (int (length nodes) + k))"
proof (cases rule: activate_memories_cases [of A nodes edges q k P])
  case (failed e P')
  then show ?thesis by simp
next
  case empty
  then show ?thesis by (simp add: activate_body_def)
next
  case (ranked res P')
  from activate_body_success [OF ranked(2,1)]
  obtain graph out where "create_graph_data nodes edges = Inr graph"
    and "GraphSAGEMemory_forward (model P) graph
           (fst (get_memory_states (map node_id nodes) P)) = Inr out"
    and le: "length (node_embeddings out) = length nodes"
    and la: "length (concat (activation_scores out)) = length nodes"
    and "length q = hidden_dim (model P)"
    and "\<forall>n\<in>set nodes. length (embedding n) = input_dim (model P)"
    and res: "res = rank_entries A nodes
                   (map2 (\<lambda>s a. 7 / 10 * s + 3 / 10 * a)
                      (cosine_similarities (node_embeddings out) q)
                      (concat (activation_scores out)))
                   (cosine_similarities (node_embeddings out) q) k"
    by (elim exE conjE)
  let ?final = "map2 (\<lambda>s a. 7 / 10 * s + 3 / 10 * a)
                  (cosine_similarities (node_embeddings out) q) (concat (activation_scores out))"
  have lf: "length ?final = length nodes" using le la by (simp add: cosine_similarities_def)
  have "length res = length (top_indices_of A ?final k)"
    unfolding res rank_entries_eq [OF assms lf] by simp
  then have "length res = (if 0 \<le> k then min (nat k) (length nodes) else nat (int (length nodes) + k))"
    using top_indices_facts(2) [OF assms, of ?final k] lf by simp
  then show ?thesis using ranked by simp
qed

text \<open>
  Claim C6.  The claim is that a call of \<^verbatim>\<open>activate_memories\<close> on a non-empty candidate set
  returns \<open>min(topK, number of candidates)\<close> entries.  Line 331 multiplies the node
  embeddings, which have \<open>GNN_HIDDEN_DIM\<close> columns, with the query, which has
  \<open>VECTOR_DIMENSION\<close> entries.  The theorem evaluates the code on a query whose length is
  not the hidden dimension, as is every query of the vector dimension under the default
  settings 384 and 128: the product raises, the handler swallows the error, and the call
  returns no entry whatever the candidates and \<open>topK\<close> are.
\<close>

theorem query_of_other_width_returns_nothing:
  assumes "length q \<noteq> hidden_dim (model P)"
  shows "fst (activate_memories A nodes edges q k P) = []"
proof (cases rule: activate_memories_cases [of A nodes edges q k P])
  case (failed e P')
  then show ?thesis by simp
next
  case empty
  then show ?thesis by simp
next
  case (ranked res P')
  from activate_body_success [OF ranked(2,1)]
  have "length q = hidden_dim (model P)" by blast
  then show ?thesis using assms by simp
qed

theorem query_of_default_dimension_witness:
  "length (replicate 384 (1 / 2 :: real)) = VECTOR_DIMENSION default_settings \<and>
   length (embedding default_node) = VECTOR_DIMENSION default_settings \<and>
   fst (activate_memories insertion_argsort [default_node] [] (replicate 384 (1 / 2)) 10
          default_processor) = [] \<and>
   min (10 :: nat) (length [default_node]) = 1"
proof -
  have h: "length (replicate 384 (1 / 2 :: real)) \<noteq> hidden_dim (model default_processor)"
    by (simp add: default_processor_def GNNProcessor_init_def default_settings_def)
  from query_of_other_width_returns_nothing [OF h]
  have "fst (activate_memories insertion_argsort [default_node] [] (replicate 384 (1 / 2)) 10
          default_processor) = []" .
  then show ?thesis by (simp add: default_settings_def default_node_def)
qed


section \<open>Malformed embeddings\<close>

text \<open>
  Claim C4, as the code has it.  Nothing is substituted for a malformed embedding: when
  some candidate's embedding does not have \<open>D\<close> entries (\<open>D\<close> is the model's input
  dimension, set to \<open>VECTOR_DIMENSION\<close> by the constructor), a step raises
  (\<^verbatim>\<open>torch.tensor\<close> on rows of different lengths, or the first convolution on rows of the
  wrong width) and the call returns the empty list for the whole batch.
\<close>

theorem malformed_embedding_aborts_batch:
  assumes "\<exists>n\<in>set nodes. length (embedding n) \<noteq> input_dim (model P)"
  shows "fst (activate_memories A nodes edges q k P) = []"
proof (cases rule: activate_memories_cases [of A nodes edges q k P])
  case (failed e P')
  then show ?thesis by simp
next
  case empty
  then show ?thesis by simp
next
  case (ranked res P')
  from activate_body_success [OF ranked(2,1)]
  have "\<forall>n\<in>set nodes. length (embedding n) = input_dim (model P)" by blast
  then show ?thesis using assms by blast
qed

theorem malformed_embedding_witness:
  "length (embedding node_short) \<noteq> input_dim (model example_processor) \<and>
   input_dim (model example_processor) = VECTOR_DIMENSION (settings example_processor) \<and>
   fst (activate_memories insertion_argsort [node_short, node_b] [] [0, 1, 0, 0] 2
          example_processor) = []"
proof -
  have bad: "length (embedding node_short) \<noteq> input_dim (model example_processor)"
    and d: "input_dim (model example_processor) = VECTOR_DIMENSION (settings example_processor)"
    by (simp_all add: example_defs)
  from bad have "\<exists>n\<in>set [node_short, node_b].
                   length (embedding n) \<noteq> input_dim (model example_processor)"
    by simp
  from malformed_embedding_aborts_batch [OF this] bad d show ?thesis by simp
qed

text \<open>
  The claim C4 as stated fails: one record with a three-entry embedding makes the call
  return nothing, also for the well-formed record \<open>b\<close> of the same batch, whereas the same
  call with the zero vector in place of the offending embedding returns both records.
\<close>

theorem malformed_embedding_counterexample:
  "length (embedding node_short) \<noteq> VECTOR_DIMENSION (settings example_processor) \<and>
   fst (activate_memories insertion_argsort [node_short, node_b] [] [0, 1, 0, 0] 2
          example_processor) = [] \<and>
   fst (activate_memories insertion_argsort [node_short\<lparr>embedding := zeros 4\<rparr>, node_b] []
          [0, 1, 0, 0] 2 example_processor) =
   [\<lparr>memory = node_b, activation_score = 7 / 10 * (1 / (1 + eps) / (1 + eps)) + 3 / 20,
      similarity_score = 1 / (1 + eps) / (1 + eps)\<rparr>,
    \<lparr>memory = node_short\<lparr>embedding := zeros 4\<rparr>, activation_score = 3 / 20, similarity_score = 0\<rparr>]"
  by (simp add: run_short_embedding run_zero_substituted) (simp add: example_defs)


section \<open>The returned scores\<close>

text \<open>
  Claim C1, as the code has it.  The code does not clamp.  Every returned entry belongs
  to a candidate; its \<^verbatim>\<open>similarity_score\<close> is the cosine between that candidate's row of the
  network's node embeddings and the query, computed with \<^verbatim>\<open>1e-8\<close> added to each norm, and
  its \<^verbatim>\<open>activation_score\<close> is 0.7 times that similarity plus 0.3 times the candidate's
  output of the activation head.  Both are returned as computed, so they are not confined
  to the interval from 0 to 1.
\<close>

theorem returned_scores_are_the_unclamped_blend:
  "\<forall>r\<in>set (fst (activate_memories A nodes edges q k P)).
     \<exists>graph out idx.
       create_graph_data nodes edges = Inr graph \<and>
       GraphSAGEMemory_forward (model P) graph
         (fst (get_memory_states (map node_id nodes) P)) = Inr out \<and>
       idx < length nodes \<and> memory r = nodes ! idx \<and>
       similarity_score r =
         dot (node_embeddings out ! idx) q / (linalg_norm (node_embeddings out ! idx) + eps) /
           (linalg_norm q + eps) \<and>
       activation_score r =
         7 / 10 * similarity_score r + 3 / 10 * concat (activation_scores out) ! idx"
proof (cases rule: activate_memories_cases [of A nodes edges q k P])
  case (failed e P')
  then show ?thesis by simp
next
  case empty
  then show ?thesis by simp
next
  case (ranked res P')
  from activate_body_success [OF ranked(2,1)]
  obtain graph out where cg: "create_graph_data nodes edges = Inr graph"
    and fw: "GraphSAGEMemory_forward (model P) graph
               (fst (get_memory_states (map node_id nodes) P)) = Inr out"
    and le: "length (node_embeddings out) = length nodes"
    and la: "length (concat (activation_scores out)) = length nodes"
    and res: "res = rank_entries A nodes
                   (map2 (\<lambda>s a. 7 / 10 * s + 3 / 10 * a)
                      (cosine_similarities (node_embeddings out) q)
                      (concat (activation_scores out)))
                   (cosine_similarities (node_embeddings out) q) k"
    by blast
  let ?embs = "node_embeddings out"
  let ?acts = "concat (activation_scores out)"
  let ?sims = "cosine_similarities ?embs q"
  let ?final = "map2 (\<lambda>s a. 7 / 10 * s + 3 / 10 * a) ?sims ?acts"
  have "\<exists>idx. idx < length nodes \<and> memory r = nodes ! idx \<and>
       similarity_score r =
         dot (?embs ! idx) q / (linalg_norm (?embs ! idx) + eps) / (linalg_norm q + eps) \<and>
       activation_score r = 7 / 10 * similarity_score r + 3 / 10 * ?acts ! idx"
    if r: "r \<in> set res" for r
  proof -
    from r obtain idx where i: "idx < length nodes"
      and r_eq: "r = \<lparr>memory = nodes ! idx, activation_score = ?final ! idx,
                         similarity_score = ?sims ! idx\<rparr>"
      unfolding res using rank_entries_entry by blast
    have s: "?sims ! idx = dot (?embs ! idx) q / (linalg_norm (?embs ! idx) + eps) /
               (linalg_norm q + eps)"
      using i le by (simp add: cosine_similarities_def)
    have ls: "length ?sims = length nodes" using le by (simp add: cosine_similarities_def)
    have f: "?final ! idx = 7 / 10 * ?sims ! idx + 3 / 10 * ?acts ! idx"
      using i ls la by simp
    show ?thesis
      using i s f by (intro exI [of _ idx]) (simp add: r_eq)
  qed
  then show ?thesis using ranked cg fw by auto
qed

theorem returned_scores_witness:
  "\<lparr>memory = node_a, activation_score = 7 / 10 * (1 / (1 + eps) / (1 + eps)) + 3 / 20,
      similarity_score = 1 / (1 + eps) / (1 + eps)\<rparr>
     \<in> set (fst (activate_memories insertion_argsort [node_a, node_b] [] [1, 0, 0, 0] 2
                   example_processor)) \<and>
   (\<exists>graph out idx.
       create_graph_data [node_a, node_b] [] = Inr graph \<and>
       GraphSAGEMemory_forward (model example_processor) graph
         (fst (get_memory_states (map node_id [node_a, node_b]) example_processor)) = Inr out \<and>
       idx < length [node_a, node_b] \<and> node_a = [node_a, node_b] ! idx \<and>
       1 / (1 + eps) / (1 + eps) =
         dot (node_embeddings out ! idx) [1, 0, 0, 0] /
           (linalg_norm (node_embeddings out ! idx) + eps) / (linalg_norm [1, 0, 0, 0] + eps) \<and>
       7 / 10 * (1 / (1 + eps) / (1 + eps)) + 3 / 20 =
         7 / 10 * (1 / (1 + eps) / (1 + eps)) + 3 / 10 * concat (activation_scores out) ! idx)"
proof -
  let ?r = "\<lparr>memory = node_a, activation_score = 7 / 10 * (1 / (1 + eps) / (1 + eps)) + 3 / 20,
      similarity_score = 1 / (1 + eps) / (1 + eps)\<rparr>"
  have m: "?r \<in> set (fst (activate_memories insertion_argsort [node_a, node_b] [] [1, 0, 0, 0] 2
                   example_processor))"
    by (simp add: run_a_b)
  from bspec [OF returned_scores_are_the_unclamped_blend m]
  obtain graph out idx where
    "create_graph_data [node_a, node_b] [] = Inr graph"
    "GraphSAGEMemory_forward (model example_processor) graph
         (fst (get_memory_states (map node_id [node_a, node_b]) example_processor)) = Inr out"
    "idx < length [node_a, node_b]" "memory ?r = [node_a, node_b] ! idx"
    "similarity_score ?r =
         dot (node_embeddings out ! idx) [1, 0, 0, 0] /
           (linalg_norm (node_embeddings out ! idx) + eps) / (linalg_norm [1, 0, 0, 0] + eps)"
    "activation_score ?r =
         7 / 10 * similarity_score ?r + 3 / 10 * concat (activation_scores out) ! idx"
    by (elim exE conjE)
  then have "\<exists>graph out idx.
       create_graph_data [node_a, node_b] [] = Inr graph \<and>
       GraphSAGEMemory_forward (model example_processor) graph
         (fst (get_memory_states (map node_id [node_a, node_b]) example_processor)) = Inr out \<and>
       idx < length [node_a, node_b] \<and> node_a = [node_a, node_b] ! idx \<and>
       1 / (1 + eps) / (1 + eps) =
         dot (node_embeddings out ! idx) [1, 0, 0, 0] /
           (linalg_norm (node_embeddings out ! idx) + eps) / (linalg_norm [1, 0, 0, 0] + eps) \<and>
       7 / 10 * (1 / (1 + eps) / (1 + eps)) + 3 / 20 =
         7 / 10 * (1 / (1 + eps) / (1 + eps)) + 3 / 10 * concat (activation_scores out) ! idx"
    by (intro exI [of _ graph] exI [of _ out] exI [of _ idx]) (simp only: ActivatedMemory.simps simp_thms)
  with m show ?thesis by (rule conjI)
qed

text \<open>
  The claim C1 as stated fails: for a query opposite to the node embedding of the only
  candidate, both returned scores are negative.
\<close>

theorem negative_scores_counterexample:
  "fst (activate_memories insertion_argsort [node_a] [] [- 1, 0, 0, 0] 1 example_processor) =
     [\<lparr>memory = node_a, activation_score = 7 / 10 * (- 1 / (1 + eps) / (1 + eps)) + 3 / 20,
        similarity_score = - 1 / (1 + eps) / (1 + eps)\<rparr>] \<and>
   - 1 / (1 + eps) / (1 + eps) < 0 \<and>
   7 / 10 * (- 1 / (1 + eps) / (1 + eps)) + 3 / 20 < 0"
  by (simp add: run_a_opposite) (simp add: eps_def)


section \<open>Order of the ranked list\<close>

text \<open>
  Whichever argsort the platform provides, the ranked list is in descending order of the
  returned \<^verbatim>\<open>activation_score\<close>.  The order among entries of equal score is that of the
  argsort, reversed; the code adds no tie-breaking of its own.
\<close>

lemma py_take_sorted_wrt: "sorted_wrt R ys \<Longrightarrow> sorted_wrt R (py_take k ys)"
  by (simp add: py_take_def sorted_wrt_take)

lemma ranked_list_descending:
  assumes spec: "argsort_spec A"
  shows "sorted_wrt (\<lambda>a b. activation_score b \<le> activation_score a)
           (fst (activate_memories A nodes edges q k P))"
proof (cases rule: activate_memories_cases [of A nodes edges q k P])
  case (failed e P')
  then show ?thesis by simp
next
  case empty
  then show ?thesis by simp
next
  case (ranked res P')
  from activate_body_success [OF ranked(2,1)]
  obtain graph out where "create_graph_data nodes edges = Inr graph"
    and "GraphSAGEMemory_forward (model P) graph
           (fst (get_memory_states (map node_id nodes) P)) = Inr out"
    and le: "length (node_embeddings out) = length nodes"
    and la: "length (concat (activation_scores out)) = length nodes"
    and "length q = hidden_dim (model P)"
    and "\<forall>n\<in>set nodes. length (embedding n) = input_dim (model P)"
    and res: "res = rank_entries A nodes
                   (map2 (\<lambda>s a. 7 / 10 * s + 3 / 10 * a)
                      (cosine_similarities (node_embeddings out) q)
                      (concat (activation_scores out)))
                   (cosine_similarities (node_embeddings out) q) k"
    by (elim exE conjE)
  let ?final = "map2 (\<lambda>s a. 7 / 10 * s + 3 / 10 * a)
                  (cosine_similarities (node_embeddings out) q) (concat (activation_scores out))"
  have lf: "length ?final = length nodes" using le la by (simp add: cosine_similarities_def)
  have "sorted (map (\<lambda>i. ?final ! i) (A ?final))"
    using spec unfolding argsort_spec_def by blast
  then have "sorted_wrt (\<lambda>i j. ?final ! i \<le> ?final ! j) (A ?final)"
    by (simp only: sorted_map)
  then have "sorted_wrt (\<lambda>i j. ?final ! j \<le> ?final ! i) (rev (A ?final))"
    by (simp only: sorted_wrt_rev)
  then have "sorted_wrt (\<lambda>i j. ?final ! j \<le> ?final ! i) (top_indices_of A ?final k)"
    unfolding top_indices_of_def by (rule py_take_sorted_wrt)
  then have "sorted_wrt (\<lambda>a b. activation_score b \<le> activation_score a) res"
    unfolding res rank_entries_eq [OF spec lf] by (simp add: sorted_wrt_map)
  then show ?thesis using ranked by simp
qed


section \<open>Writing a pair and reading it back\<close>

lemma write_success_all:
  assumes inv: "store_inv m" and K: "length K = key_dim m" and V: "length V = key_dim m"
    and w: "ExternalMemory_write K V m = (Inr idx, m')"
  shows "idx < current_size m' \<and> current_size m' \<le> memory_size m \<and>
      keys m' = (keys m)[idx := K] \<and> vals m' = (vals m)[idx := V] \<and>
      key_dim m' = key_dim m \<and> idx < memory_size m"
proof -
  have bk: "broadcast_row (key_dim m) K = Inr K" and bv: "broadcast_row (key_dim m) V = Inr V"
    using K V by (simp_all add: broadcast_row_def)
  have lens: "length (usage m) = memory_size m" "current_size m \<le> memory_size m"
    using inv by (simp_all add: store_inv_def)
  show ?thesis
  proof (cases "current_size m < memory_size m")
    case True
    then show ?thesis
      using w bk bv by (auto simp: ExternalMemory_write_def store_slot_def Let_def)
  next
    case False
    then have full: "current_size m = memory_size m" using lens by simp
    obtain i where am: "np_argmin (usage m) = Inr i"
      using w False by (cases "np_argmin (usage m)") (simp_all add: ExternalMemory_write_def)
    have "usage m \<noteq> []" using am by (auto simp: np_argmin_def)
    from np_argmin_spec [OF this] am have i: "i < length (usage m)" by auto
    show ?thesis
      using w False am bk bv i lens full
      by (auto simp: ExternalMemory_write_def store_slot_def Let_def)
  qed
qed

lemma write_success_facts:
  assumes "store_inv m" and "length K = key_dim m" and "length V = key_dim m"
    and "ExternalMemory_write K V m = (Inr idx, m')"
  shows "idx < current_size m'" and "current_size m' \<le> memory_size m"
    and "keys m' = (keys m)[idx := K]" and "vals m' = (vals m)[idx := V]"
    and "key_dim m' = key_dim m" and "idx < memory_size m"
  using write_success_all [OF assms] by simp_all

lemma read_nonempty:
  assumes "current_size m \<noteq> 0" and "length q = key_dim m"
  shows "ExternalMemory_read A q k m =
     (let sims = cosine_similarities (take (current_size m) (keys m)) q;
          top = py_take k (rev (A sims))
      in (Inr (map (\<lambda>i. vals m ! i) top, map (\<lambda>i. sims ! i) top),
          m\<lparr>usage := map (\<lambda>i. if i \<in> set top then usage m ! i + 1 / 10 else usage m ! i)
                         [0..<length (usage m)]\<rparr>))"
  using assms
  by (simp add: ExternalMemory_read_def np_dot_def Let_def cosine_similarities_eq [symmetric])










section \<open>The store invariant is maintained\<close>

text \<open>
  Every operation of the engine on the external memory keeps \<open>store_inv\<close>, which holds of
  the freshly allocated store: the invariant assumed of the store in the theorems above is
  therefore true of every store the processor can reach.  The last lemma is the path of
  \<^verbatim>\<open>update_memory_with_interaction\<close> for an embedding that does fit the store: the pair is
  written and the decay pass runs.
\<close>

lemma rows_update:
  assumes "\<forall>r\<in>set A. length r = d" and "length k = d"
  shows "\<forall>r\<in>set (A[i := k]). length r = d"
  using assms set_update_subset_insert [of A i k] by auto

lemma store_inv_update:
  assumes inv: "store_inv m" and idx: "idx < current_size m"
    and lk: "length k = key_dim m" and lv: "length v = key_dim m"
  shows "store_inv (m\<lparr>keys := (keys m)[idx := k]\<rparr>)"
    and "store_inv (m\<lparr>keys := (keys m)[idx := k], vals := (vals m)[idx := v],
                      usage := (usage m)[idx := u]\<rparr>)"
proof -
  have rk: "\<forall>r\<in>set ((keys m)[idx := k]). length r = key_dim m"
    using inv lk by (intro rows_update) (simp_all add: store_inv_def)
  have rv: "\<forall>r\<in>set ((vals m)[idx := v]). length r = key_dim m"
    using inv lv by (intro rows_update) (simp_all add: store_inv_def)
  have fresh: "(keys m)[idx := k] ! i = keys m ! i \<and> (vals m)[idx := v] ! i = vals m ! i \<and>
               (usage m)[idx := u] ! i = usage m ! i"
    if "i \<in> {current_size m..<memory_size m}" for i
  proof -
    have "i \<noteq> idx" using that idx by auto
    then show ?thesis by simp
  qed
  show "store_inv (m\<lparr>keys := (keys m)[idx := k]\<rparr>)"
    using inv rk fresh by (simp add: store_inv_def)
  show "store_inv (m\<lparr>keys := (keys m)[idx := k], vals := (vals m)[idx := v],
                      usage := (usage m)[idx := u]\<rparr>)"
    using inv rk rv fresh by (simp add: store_inv_def)
qed

lemma store_slot_inv:
  assumes inv: "store_inv m" and idx: "idx < current_size m"
  shows "store_inv (snd (store_slot idx key value m))"
proof (cases "broadcast_row (key_dim m) key")
  case (Inl e)
  then show ?thesis using inv by (simp add: store_slot_def)
next
  case (Inr k)
  note lk = broadcast_row_length [OF Inr]
  show ?thesis
  proof (cases "broadcast_row (key_dim m) value")
    case (Inl e)
    then show ?thesis
      using store_inv_update(1) [OF inv idx lk lk] Inr by (simp add: store_slot_def Let_def)
  next
    case v: (Inr v)
    note lv = broadcast_row_length [OF v]
    show ?thesis
      using store_inv_update(2) [OF inv idx lk lv, of 1] Inr v by (simp add: store_slot_def Let_def)
  qed
qed

lemma write_preserves_store_inv:
  assumes inv: "store_inv m"
  shows "store_inv (snd (ExternalMemory_write key value m))"
proof (cases "current_size m < memory_size m")
  case True
  have "store_inv (m\<lparr>current_size := current_size m + 1\<rparr>)"
    using inv True by (auto simp: store_inv_def)
  then have "store_inv (snd (store_slot (current_size m) key value (m\<lparr>current_size := current_size m + 1\<rparr>)))"
    by (rule store_slot_inv) simp
  then show ?thesis using True by (simp add: ExternalMemory_write_def)
next
  case False
  then have full: "current_size m = memory_size m" using inv by (simp add: store_inv_def)
  show ?thesis
  proof (cases "np_argmin (usage m)")
    case (Inl e)
    then show ?thesis using inv False by (simp add: ExternalMemory_write_def)
  next
    case (Inr idx)
    then have "usage m \<noteq> []" by (auto simp: np_argmin_def)
    from np_argmin_spec [OF this] Inr have "idx < length (usage m)" by auto
    then have "idx < current_size m" using inv full by (simp add: store_inv_def)
    with inv have "store_inv (snd (store_slot idx key value m))" by (rule store_slot_inv)
    then show ?thesis using False Inr by (simp add: ExternalMemory_write_def)
  qed
qed

lemma decay_keeps_zero_usage:
  "length (usage (external_memory (apply_memory_decay P))) = length (usage (external_memory P))"
  "i < length (usage (external_memory P)) \<Longrightarrow> usage (external_memory P) ! i = 0 \<Longrightarrow>
     usage (external_memory (apply_memory_decay P)) ! i = 0"
  by (simp_all add: apply_memory_decay_def Let_def foldl_zero_length foldl_zero_nth)

lemma decay_preserves_store_inv:
  assumes inv: "store_inv (external_memory P)"
  shows "store_inv (external_memory (apply_memory_decay P))"
proof -
  let ?u = "usage (external_memory P)"
  let ?u' = "usage (external_memory (apply_memory_decay P))"
  have len: "length ?u' = length ?u" by (rule decay_keeps_zero_usage)
  have z: "?u' ! i = 0" if "i < length ?u" "?u ! i = 0" for i
    using that by (rule decay_keeps_zero_usage)
  have same: "keys (external_memory (apply_memory_decay P)) = keys (external_memory P)"
    "vals (external_memory (apply_memory_decay P)) = vals (external_memory P)"
    "memory_size (external_memory (apply_memory_decay P)) = memory_size (external_memory P)"
    "key_dim (external_memory (apply_memory_decay P)) = key_dim (external_memory P)"
    "current_size (external_memory (apply_memory_decay P)) = current_size (external_memory P)"
    by (simp_all add: apply_memory_decay_def Let_def)
  show ?thesis
    using inv len z unfolding store_inv_def same by auto
qed

lemma read_preserves_store_inv:
  assumes spec: "argsort_spec A" and inv: "store_inv m"
  shows "store_inv (snd (ExternalMemory_read A q k m))"
proof (cases "current_size m \<noteq> 0 \<and> length q = key_dim m")
  case False
  then have "snd (ExternalMemory_read A q k m) = m"
    by (auto simp: ExternalMemory_read_def np_dot_def)
  then show ?thesis using inv by simp
next
  case True
  let ?sims = "cosine_similarities (take (current_size m) (keys m)) q"
  let ?top = "py_take k (rev (A ?sims))"
  have cs: "current_size m \<le> length (keys m)" using inv by (simp add: store_inv_def)
  have "set ?top \<subseteq> set (rev (A ?sims))" by (rule py_take_set)
  then have top: "set ?top \<subseteq> {0..<current_size m}"
    using cs by (simp add: argsort_set [OF spec] cosine_similarities_def)
  have m': "snd (ExternalMemory_read A q k m) =
      m\<lparr>usage := map (\<lambda>i. if i \<in> set ?top then usage m ! i + 1 / 10 else usage m ! i)
                     [0..<length (usage m)]\<rparr>"
    using True by (simp add: read_nonempty Let_def)
  have "usage (snd (ExternalMemory_read A q k m)) ! i = usage m ! i"
    if "i \<in> {current_size m..<memory_size m}" for i
  proof -
    have "i \<notin> set ?top" using top that by auto
    moreover have "i < length (usage m)" using that inv by (simp add: store_inv_def)
    ultimately show ?thesis unfolding m' by simp
  qed
  then show ?thesis using inv unfolding store_inv_def m' by simp
qed

lemma interaction_preserves_store_inv:
  assumes "store_inv (external_memory P)"
  shows "store_inv (external_memory
           (update_memory_with_interaction user_input system_response e emotion_scores P))"
proof -
  obtain r m' where w: "ExternalMemory_write e e (external_memory P) = (r, m')"
    by (cases "ExternalMemory_write e e (external_memory P)") auto
  have m': "store_inv m'" using write_preserves_store_inv [OF assms, of e e] w by simp
  show ?thesis
  proof (cases r)
    case (Inl err)
    then show ?thesis using w m' by (simp add: update_memory_with_interaction_def)
  next
    case (Inr idx)
    have "store_inv (external_memory (apply_memory_decay (P\<lparr>external_memory := m'\<rparr>)))"
      by (rule decay_preserves_store_inv) (simp add: m')
    then show ?thesis using w Inr by (simp add: update_memory_with_interaction_def)
  qed
qed

lemma interaction_with_matching_embedding:
  assumes inv: "store_inv (external_memory P)" and pos: "0 < memory_size (external_memory P)"
    and len: "length e = key_dim (external_memory P)"
  shows "\<exists>idx m'. ExternalMemory_write e e (external_memory P) = (Inr idx, m') \<and>
           keys m' ! idx = e \<and> vals m' ! idx = e \<and>
           update_memory_with_interaction user_input system_response e emotion_scores P =
             apply_memory_decay (P\<lparr>external_memory := m'\<rparr>)"
proof -
  let ?m = "external_memory P"
  have b: "broadcast_row (key_dim ?m) e = Inr e" using len by (simp add: broadcast_row_def)
  have lens: "length (keys ?m) = memory_size ?m" "length (vals ?m) = memory_size ?m"
    "length (usage ?m) = memory_size ?m" "current_size ?m \<le> memory_size ?m"
    using inv by (simp_all add: store_inv_def)
  obtain idx where idx: "idx < memory_size ?m"
    "ExternalMemory_write e e ?m =
       (Inr idx, (if current_size ?m < memory_size ?m then ?m\<lparr>current_size := current_size ?m + 1\<rparr> else ?m)
                 \<lparr>keys := (keys ?m)[idx := e], vals := (vals ?m)[idx := e],
                  usage := (usage ?m)[idx := 1]\<rparr>)"
  proof (cases "current_size ?m < memory_size ?m")
    case True
    then show ?thesis
      using that [of "current_size ?m"] b
      by (simp add: ExternalMemory_write_def store_slot_def Let_def)
  next
    case False
    have "usage ?m \<noteq> []" using lens pos by auto
    from np_argmin_spec [OF this] obtain i where "np_argmin (usage ?m) = Inr i" "i < length (usage ?m)"
      by blast
    then show ?thesis
      using that [of i] b False lens
      by (simp add: ExternalMemory_write_def store_slot_def Let_def)
  qed
  show ?thesis
    using idx lens by (auto simp: update_memory_with_interaction_def)
qed

end
